theory Spec2Isabelle
  imports Complex_Main
begin

section \<open>Alsuper price scraper: the price extraction engine of \<open>scraper/main.py\<close>\<close>

text \<open>
  Conventions of the embedding.
  \<^item> A Python or JavaScript string is a \<open>string\<close> whose characters are the code points
    0..255 (Latin-1); \<open>str.lower\<close>, \<open>str.strip\<close> and the regular expression classes
    \<open>\d\<close> and \<open>\s\<close> are written out for that range.
  \<^item> A Python \<open>float\<close> that comes out of \<open>float("ddd.dd")\<close> is the decimal number it
    denotes, a \<open>rat\<close>; binary rounding is not modelled.
  \<^item> \<open>Optional[T]\<close> is \<open>T option\<close>; a caught exception is \<open>None\<close> at the place
    where the \<open>except\<close> clause sits; an \<open>HTTPException\<close> that leaves
    \<open>get_price\<close> is the \<open>Inl\<close> branch of its result.
\<close>

subsection \<open>String primitives of the two host languages\<close>

definition is_digit :: "char \<Rightarrow> bool" where
  "is_digit c = (c \<in> set ''0123456789'')"

definition digit_val :: "char \<Rightarrow> int" where
  "digit_val c = of_char c - 48"

text \<open>The number a string of decimal digits denotes.\<close>

definition int_of_digits :: "string \<Rightarrow> int" where
  "int_of_digits ds = foldl (\<lambda>a c. 10 * a + digit_val c) 0 ds"

text \<open>\<open>str.lower\<close> on code points below 256: A-Z and the accented capitals
  0xC0-0xDE (without the multiplication sign 0xD7) move up by 32.\<close>

definition lower_char :: "char \<Rightarrow> char" where
  "lower_char c = (let n = (of_char c :: nat) in
     if (65 \<le> n \<and> n \<le> 90) \<or> (192 \<le> n \<and> n \<le> 222 \<and> n \<noteq> 215)
     then char_of (n + 32) else c)"

definition lower :: "string \<Rightarrow> string" where
  "lower s = map lower_char s"

text \<open>The characters \<open>str.strip\<close> and \<open>float\<close> remove at both ends.\<close>

definition py_space :: "char \<Rightarrow> bool" where
  "py_space c = ((of_char c :: nat) \<in> {9, 10, 11, 12, 13, 28, 29, 30, 31, 32, 133, 160})"

definition strip :: "string \<Rightarrow> string" where
  "strip s = rev (dropWhile py_space (rev (dropWhile py_space s)))"

text \<open>The characters of JavaScript's \<open>\s\<close> and \<open>String.prototype.trim\<close>.\<close>

definition js_space :: "char \<Rightarrow> bool" where
  "js_space c = ((of_char c :: nat) \<in> {9, 10, 11, 12, 13, 32, 160})"

definition js_trim :: "string \<Rightarrow> string" where
  "js_trim s = rev (dropWhile js_space (rev (dropWhile js_space s)))"

text \<open>\<open>s.replace(c, "")\<close> for a one-character \<open>c\<close>.\<close>

definition remove_char :: "char \<Rightarrow> string \<Rightarrow> string" where
  "remove_char c s = filter (\<lambda>x. x \<noteq> c) s"

definition starts_with :: "string \<Rightarrow> string \<Rightarrow> bool" where
  "starts_with p s = (take (length p) s = p)"

text \<open>\<open>needle in hay\<close> (Python) and \<open>hay.includes(needle)\<close> (JavaScript).\<close>

primrec contains :: "string \<Rightarrow> string \<Rightarrow> bool" where
  "contains needle [] = (needle = [])"
| "contains needle (c # cs) = (starts_with needle (c # cs) \<or> contains needle cs)"

text \<open>\<open>s.index(c)\<close>: the first position of \<open>c\<close>, \<open>None\<close> for the ValueError.\<close>

primrec index_of :: "char \<Rightarrow> string \<Rightarrow> nat option" where
  "index_of c [] = None"
| "index_of c (x # xs) = (if x = c then Some 0 else map_option Suc (index_of c xs))"

text \<open>\<open>s[a:b]\<close> for non-negative bounds; empty when \<open>b \<le> a\<close>.\<close>

definition slice :: "string \<Rightarrow> nat \<Rightarrow> nat \<Rightarrow> string" where
  "slice s a b = take (b - a) (drop a s)"

text \<open>\<open>s.split(c)\<close>: always at least one field.\<close>

primrec split_on :: "char \<Rightarrow> string \<Rightarrow> string list" where
  "split_on c [] = [[]]"
| "split_on c (x # xs) =
     (if x = c then [] # split_on c xs
      else (case split_on c xs of f # fs \<Rightarrow> (x # f) # fs | [] \<Rightarrow> [[x]]))"

text \<open>\<open>xs[i]\<close> on a list, \<open>None\<close> for the IndexError.\<close>

definition nth_opt :: "'a list \<Rightarrow> nat \<Rightarrow> 'a option" where
  "nth_opt xs i = (if i < length xs then Some (xs ! i) else None)"

subsection \<open>Numeric text parser: \<open>_num\<close>\<close>

text \<open>
  \<open>re.search(r"(\d+(?:\.\d{1,2})?)", clean)\<close>: the leftmost match starts at the first
  digit; \<open>\d+\<close> is greedy and takes the whole run of digits; the optional group then takes
  a point and one digit, and a second digit when there is one. The result is group 1.
\<close>

definition fraction_part :: "string \<Rightarrow> string" where
  "fraction_part r =
     (case r of
        c # d1 # r' \<Rightarrow>
          if c = CHR ''.'' \<and> is_digit d1
          then c # d1 # (case r' of d2 # _ \<Rightarrow> if is_digit d2 then [d2] else [] | [] \<Rightarrow> [])
          else []
      | _ \<Rightarrow> [])"

definition re_search_number :: "string \<Rightarrow> string option" where
  "re_search_number s =
     (let t = dropWhile (\<lambda>c. \<not> is_digit c) s in
      if t = [] then None
      else Some (takeWhile is_digit t @ fraction_part (dropWhile is_digit t)))"

text \<open>\<open>float(m.group(1))\<close> on a match of that pattern: digits, and perhaps a point and
  one or two digits.\<close>

definition decimal_value :: "string \<Rightarrow> rat" where
  "decimal_value m =
     (let ip = takeWhile (\<lambda>c. c \<noteq> CHR ''.'') m;
          fp = drop 1 (dropWhile (\<lambda>c. c \<noteq> CHR ''.'') m)
      in of_int (int_of_digits ip) + of_int (int_of_digits fp) / 10 ^ length fp)"

definition num :: "string \<Rightarrow> rat option" where
  "num txt =
     (if txt = [] then None
      else
        let clean = strip (remove_char (CHR ''$'') (remove_char (CHR '','') txt))
        in map_option decimal_value (re_search_number clean))"

subsection \<open>Color classifier: \<open>_color_is_red_or_black\<close>\<close>

text \<open>
  \<open>int(float(x))\<close> for a string \<open>x\<close>, \<open>None\<close> when either call raises. \<open>float\<close>
  strips white space and accepts a sign followed by \<open>inf\<close>, \<open>infinity\<close>, \<open>nan\<close> (on
  which \<open>int\<close> raises) or by a decimal literal: digits with single underscores between
  them, a point on either side of which digits may be missing (not on both), and an
  exponent. \<open>int\<close> truncates towards zero. The value is computed on the decimal
  literal itself; a magnitude that \<open>float\<close> turns into infinity makes \<open>int\<close> raise.
\<close>

fun digitpart_from :: "bool \<Rightarrow> string \<Rightarrow> bool" where
  "digitpart_from after_digit [] = after_digit"
| "digitpart_from after_digit (c # cs) =
     (if is_digit c then digitpart_from True cs
      else if c = CHR ''_'' \<and> after_digit then cs \<noteq> [] \<and> is_digit (hd cs) \<and> digitpart_from False cs
      else False)"

definition digitpart :: "string \<Rightarrow> bool" where
  "digitpart ds = (ds \<noteq> [] \<and> digitpart_from False ds)"

definition split_sign :: "string \<Rightarrow> bool \<times> string" where
  "split_sign s =
     (case s of
        c # cs \<Rightarrow> if c = CHR ''-'' then (True, cs) else if c = CHR ''+'' then (False, cs) else (False, s)
      | [] \<Rightarrow> (False, []))"

definition is_exp_mark :: "char \<Rightarrow> bool" where
  "is_exp_mark c = (c = CHR ''e'' \<or> c = CHR ''E'')"

definition float_overflow :: int where
  "float_overflow = 2 ^ 1024 - 2 ^ 970"

definition int_float :: "string \<Rightarrow> int option" where
  "int_float x =
     (let (neg, body) = split_sign (strip x);
          mant = takeWhile (\<lambda>c. \<not> is_exp_mark c) body;
          expo = dropWhile (\<lambda>c. \<not> is_exp_mark c) body;
          ip = takeWhile (\<lambda>c. c \<noteq> CHR ''.'') mant;
          pt = dropWhile (\<lambda>c. c \<noteq> CHR ''.'') mant;
          fp = drop 1 pt;
          mant_ok = (if pt = [] then digitpart ip
                     else (digitpart ip \<and> (fp = [] \<or> digitpart fp)) \<or> (ip = [] \<and> digitpart fp));
          (eneg, edigits) = split_sign (drop 1 expo);
          exp_ok = (expo = [] \<or> digitpart edigits);
          e = (if expo = [] then 0
               else (if eneg then - 1 else 1) * int_of_digits (remove_char (CHR ''_'') edigits));
          n = int_of_digits (remove_char (CHR ''_'') (ip @ fp));
          k = e - int (length (remove_char (CHR ''_'') fp));
          magnitude = (if 0 \<le> k then n * 10 ^ nat k else n div 10 ^ nat (- k))
      in if mant_ok \<and> exp_ok \<and> magnitude < float_overflow
         then Some (if neg then - magnitude else magnitude)
         else None)"

text \<open>Lines 101-102: the three channels, \<open>None\<close> for any exception raised there
  (no parenthesis, fewer than three fields, a field that is not a number).\<close>

definition rgb_channels :: "string \<Rightarrow> (int \<times> int \<times> int) option" where
  "rgb_channels s =
     Option.bind (index_of (CHR ''('') s) (\<lambda>i.
     Option.bind (index_of (CHR '')'') s) (\<lambda>j.
       let nums = split_on (CHR '','') (slice s (i + 1) j) in
       Option.bind (Option.bind (nth_opt nums 0) int_float) (\<lambda>r.
       Option.bind (Option.bind (nth_opt nums 1) int_float) (\<lambda>g.
       Option.bind (Option.bind (nth_opt nums 2) int_float) (\<lambda>b.
         Some (r, g, b))))))"

text \<open>Lines 111-119, reached when the text is no \<open>rgb\<close> form or its channels are
  neither black nor red.\<close>

definition hex_or_keyword :: "string \<Rightarrow> string option" where
  "hex_or_keyword s =
     (if s = ''#000'' \<or> s = ''#000000'' then Some ''black''
      else if s = ''#f00'' \<or> s = ''#ff0000'' then Some ''red''
      else if contains ''black'' s then Some ''black''
      else if contains ''red'' s then Some ''red''
      else None)"

definition color_is_red_or_black :: "string \<Rightarrow> string option" where
  "color_is_red_or_black color_str =
     (let s = remove_char (CHR '' '') (lower color_str)
      in if starts_with ''rgb'' s then
           (case rgb_channels s of
              None \<Rightarrow> None
            | Some (r, g, b) \<Rightarrow>
                if r \<le> 10 \<and> g \<le> 10 \<and> b \<le> 10 then Some ''black''
                else if 180 \<le> r \<and> g \<le> 60 \<and> b \<le> 60 then Some ''red''
                else hex_or_keyword s)
         else hex_or_keyword s)"

subsection \<open>Unit and pack inference: \<open>_guess_units\<close>\<close>

definition guess_units :: "string \<Rightarrow> string \<Rightarrow> string \<times> int option \<times> int option" where
  "guess_units url page_text =
     (let low = lower (url @ '' '' @ page_text) in
      if contains ''cerveza-six-pack'' low \<or> contains ''six pack'' low \<or> contains ''six-pack'' low
      then (''six-pack'', Some 6, None)
      else if contains ''nectar-mixto'' low \<or> contains ''v8'' low \<or> contains ''lata'' low
      then (''lata'', Some 1, None)
      else if contains ''kg'' low \<or> contains ''kilo'' low
              \<or> list_ex (\<lambda>k. contains k low)
                    [''pulpa-de-res'', ''jamon-de-pierna'', ''tocineta'', ''cebolla'']
      then (''kg'', None, None)
      else if contains ''chorizo'' low
      then (''pieza'', Some 1, Some 100)
      else if contains ''salchicha'' low \<or> contains ''salchichas'' low
      then (''paquete'', Some 1, Some 800)
      else if contains ''paquete'' low
      then (''paquete'', Some 1, Some 800)
      else (''pieza'', Some 1, None))"

subsection \<open>Candidate locator: \<open>PRICE_SELECTORS\<close> and \<open>FIND_PRICE_JS\<close>\<close>

definition PRICE_SELECTORS :: "string list" where
  "PRICE_SELECTORS =
     [''mat-label.as-discount-price.as-font-red-blood'',
      ''mat-label.as-price.as-font-red-blood'',
      ''[class*='' @ [CHR 0x27] @ ''as-discount-price'' @ [CHR 0x27] @ ''][class*=''
         @ [CHR 0x27] @ ''as-font-red'' @ [CHR 0x27] @ '']'',
      ''[class*='' @ [CHR 0x27] @ ''as-price'' @ [CHR 0x27] @ ''][class*=''
         @ [CHR 0x27] @ ''as-font-red'' @ [CHR 0x27] @ '']'',
      ''mat-label.as-price'',
      ''[class*='' @ [CHR 0x27] @ ''as-price'' @ [CHR 0x27] @ '']'',
      ''h1 + * [class*='' @ [CHR 0x27] @ ''as-price'' @ [CHR 0x27] @ '']'',
      ''h1 ~ * [class*='' @ [CHR 0x27] @ ''as-price'' @ [CHR 0x27] @ '']'']"

text \<open>
  What the in-page script reads of an element: its \<open>textContent\<close> and three properties
  of its computed style. The rendered page is the function from a selector to the
  elements \<open>document.querySelectorAll\<close> returns for it, in document order.
\<close>

record node =
  textContent :: string
  cs_color :: string
  cs_textDecoration :: string
  cs_textDecorationLine :: string

type_synonym document = "string \<Rightarrow> node list"

record raw_candidate =
  selector :: string
  "text" :: string
  color :: string
  struck :: bool

text \<open>\<open>a || b || ''\<close> on strings: the first that is not empty.\<close>

definition isStruck :: "node \<Rightarrow> bool" where
  "isStruck el =
     (let td = lower (if cs_textDecoration el \<noteq> [] then cs_textDecoration el
                      else cs_textDecorationLine el)
      in contains ''line-through'' td)"

text \<open>\<open>/\$\s*\d/.test(text)\<close>: somewhere a dollar sign, then any white space, then a
  digit. The white space is skipped greedily; no shorter skip can reach a digit.\<close>

primrec hasDollarDigits :: "string \<Rightarrow> bool" where
  "hasDollarDigits [] = False"
| "hasDollarDigits (c # cs) =
     ((c = CHR ''$'' \<and> (case dropWhile js_space cs of d # _ \<Rightarrow> is_digit d | [] \<Rightarrow> False))
      \<or> hasDollarDigits cs)"

text \<open>The inner loop over the nodes of one selector, appending to \<open>out\<close>.\<close>

primrec push_nodes :: "string \<Rightarrow> node list \<Rightarrow> raw_candidate list \<Rightarrow> raw_candidate list" where
  "push_nodes sel [] out = out"
| "push_nodes sel (el # nodes) out =
     (let txt = js_trim (textContent el) in
      if \<not> hasDollarDigits txt then push_nodes sel nodes out
      else push_nodes sel nodes
             (out @ [\<lparr>selector = sel, text = txt, color = cs_color el, struck = isStruck el\<rparr>]))"

text \<open>The outer loop over the selectors, with its \<open>break\<close>.\<close>

primrec find_price_loop :: "document \<Rightarrow> string list \<Rightarrow> raw_candidate list \<Rightarrow> raw_candidate list" where
  "find_price_loop doc [] out = out"
| "find_price_loop doc (sel # sels) out =
     (let out' = push_nodes sel (doc sel) out in
      if out' \<noteq> [] then out' else find_price_loop doc sels out')"

definition FIND_PRICE_JS :: "document \<Rightarrow> string list \<Rightarrow> raw_candidate list" where
  "FIND_PRICE_JS doc selList = find_price_loop doc selList []"

subsection \<open>Candidate filter and picker: lines 196-211 of \<open>get_price\<close>\<close>

record candidate = raw_candidate +
  "value" :: rat
  colorType :: string

text \<open>\<open>if not colorType\<close> rejects \<open>None\<close> and the empty string; \<open>if val\<close> rejects
  \<open>None\<close> and zero.\<close>

primrec filter_candidates :: "raw_candidate list \<Rightarrow> candidate list" where
  "filter_candidates [] = []"
| "filter_candidates (it # rest) =
     (if struck it then filter_candidates rest
      else
        (case color_is_red_or_black (color it) of
           None \<Rightarrow> filter_candidates rest
         | Some ct \<Rightarrow>
             if ct = [] then filter_candidates rest
             else
               (case num (text it) of
                  None \<Rightarrow> filter_candidates rest
                | Some val \<Rightarrow>
                    if val \<noteq> 0
                    then \<lparr>selector = selector it, text = text it, color = color it,
                           struck = struck it, value = val, colorType = ct\<rparr>
                         # filter_candidates rest
                    else filter_candidates rest)))"

definition pick_candidate :: "raw_candidate list \<Rightarrow> candidate option" where
  "pick_candidate raw_list =
     (let filtered = filter_candidates raw_list;
          red_first = filter (\<lambda>x. colorType x = ''red'') filtered;
          black_next = filter (\<lambda>x. colorType x = ''black'') filtered
      in case red_first of
           x # _ \<Rightarrow> Some x
         | [] \<Rightarrow> (case black_next of x # _ \<Rightarrow> Some x | [] \<Rightarrow> None))"

subsection \<open>Polling retry loop: lines 188-218 of \<open>get_price\<close>\<close>

text \<open>
  Time is the reading of \<open>time.time()\<close> in milliseconds. One attempt of the loop is what
  the browser does when asked to evaluate the script: \<open>page_dom\<close> is the page the script
  runs on, \<open>None\<close> when \<open>page.evaluate\<close> raises; \<open>took\<close> is the time the attempt
  takes; \<open>page.wait_for_timeout(350)\<close> returns after 350 ms and \<open>overshoot\<close> more,
  and does not raise. The clock never runs backwards.
  The loop variables \<open>price_val\<close>, \<open>picked\<close> and \<open>raw_list\<close> and the clock at the
  exit of the loop make up the result.
\<close>

record attempt =
  page_dom :: "document option"
  took :: nat
  overshoot :: nat

record poll_state =
  price_val :: "rat option"
  picked :: "candidate option"
  raw_list :: "raw_candidate list"
  clock :: nat

function poll :: "(nat \<Rightarrow> attempt) \<Rightarrow> nat \<Rightarrow> nat \<Rightarrow> nat \<Rightarrow> raw_candidate list \<Rightarrow> poll_state" where
  "poll env i now deadline raw =
     (if now < deadline then
        (case page_dom (env i) of
           None \<Rightarrow>
             poll env (i + 1) (now + took (env i) + 350 + overshoot (env i)) deadline raw
         | Some doc \<Rightarrow>
             (let raw' = FIND_PRICE_JS doc PRICE_SELECTORS in
              case pick_candidate raw' of
                Some pick \<Rightarrow>
                  \<lparr>price_val = Some (value pick), picked = Some pick, raw_list = raw',
                   clock = now + took (env i)\<rparr>
              | None \<Rightarrow>
                  poll env (i + 1) (now + took (env i) + 350 + overshoot (env i)) deadline raw'))
      else \<lparr>price_val = None, picked = None, raw_list = raw, clock = now\<rparr>)"
  by pat_completeness auto
termination
  by (relation "measure (\<lambda>(env, i, now, deadline, raw). deadline - now)") auto

subsection \<open>Orchestrator: \<open>get_price\<close>\<close>

record price_response =
  url :: string
  product_name :: "string option"
  price_per_kg :: "rat option"
  unit_price :: "rat option"
  unit_pack_size :: "int option"
  unit_weight_g :: "int option"
  currency :: string
  raw_unit :: "string option"

datatype http_exception = HTTPException (status_code: nat) (detail: string)

text \<open>
  What the browser answers during one request: \<open>load_failure\<close> is the text of the
  exception raised by navigation, banner dismissal or the wait for the heading (lines
  169-173), \<open>None\<close> when they all return; \<open>h1_inner_text\<close> and \<open>body_inner_text\<close> are
  \<open>None\<close> when the \<open>inner_text\<close> call raises; \<open>started\<close> is the clock at line 191.
  The cache is the map from URL to stored record; expiry and eviction belong to the cache
  primitive. The \<open>debug\<close> flag only prints and is left out.
\<close>

record page =
  load_failure :: "string option"
  h1_inner_text :: "string option"
  attempts :: "nat \<Rightarrow> attempt"
  started :: nat
  body_inner_text :: "string option"

type_synonym cache = "string \<rightharpoonup> price_response"

definition not_found_detail :: string where
  "not_found_detail =
     ''No se encontr'' @ [CHR 0xF3] @ '' precio visible no tachado con '' @ [CHR 0x27] @ ''$''
       @ [CHR 0x27] @ '' (rojo/negro) usando selectores de Alsuper.''"

text \<open>Lines 239-261: unit inference and assembly of the record.\<close>

definition build_response :: "string \<Rightarrow> string option \<Rightarrow> rat \<Rightarrow> string \<Rightarrow> price_response" where
  "build_response u name pv page_text =
     (let (unit, pack_size, weight_g) = guess_units u page_text
      in \<lparr>url = u, product_name = name,
          price_per_kg = (if unit = ''kg'' then Some pv else None),
          unit_price = (if unit = ''kg'' then None else Some pv),
          unit_pack_size = pack_size, unit_weight_g = weight_g,
          currency = ''MXN'', raw_unit = Some unit\<rparr>)"

definition get_price :: "cache \<Rightarrow> page \<Rightarrow> string \<Rightarrow> (http_exception + price_response) \<times> cache" where
  "get_price cache pg u =
     (case cache u of
        Some r \<Rightarrow> (Inr r, cache)
      | None \<Rightarrow>
          (case load_failure pg of
             Some e \<Rightarrow> (Inl (HTTPException 502 (''No se pudo cargar '' @ u @ '': '' @ e)), cache)
           | None \<Rightarrow>
               (let name = map_option strip (h1_inner_text pg);
                    st = poll (attempts pg) 0 (started pg) (started pg + 18000) []
                in case price_val st of
                     None \<Rightarrow> (Inl (HTTPException 500 not_found_detail), cache)
                   | Some pv \<Rightarrow>
                       (let page_text = (case body_inner_text pg of None \<Rightarrow> [] | Some t \<Rightarrow> t);
                            resp = build_response u name pv page_text
                        in (Inr resp, cache(u \<mapsto> resp))))))"

subsection \<open>Reference definitions, written from the specification\<close>

text \<open>The pattern of the numeric parser: digits, optionally a point and one or two
  digits.\<close>

definition price_run :: "string \<Rightarrow> bool" where
  "price_run m =
     (let ds = takeWhile is_digit m; r = dropWhile is_digit m
      in ds \<noteq> [] \<and>
         (r = [] \<or> (hd r = CHR ''.'' \<and> (length (tl r) = 1 \<or> length (tl r) = 2)
                     \<and> list_all is_digit (tl r))))"

text \<open>A currency symbol immediately followed by a digit.\<close>

primrec dollar_then_digit :: "string \<Rightarrow> bool" where
  "dollar_then_digit [] = False"
| "dollar_then_digit (c # cs) =
     ((c = CHR ''$'' \<and> cs \<noteq> [] \<and> is_digit (hd cs)) \<or> dollar_then_digit cs)"

text \<open>The locator of section 4.3 for a given test on the text of an element: the
  elements of the first selector that has an element passing the test.\<close>

definition report :: "string \<Rightarrow> node \<Rightarrow> raw_candidate" where
  "report sel el =
     \<lparr>selector = sel, text = js_trim (textContent el), color = cs_color el,
      struck = isStruck el\<rparr>"

definition locator_reference :: "(string \<Rightarrow> bool) \<Rightarrow> document \<Rightarrow> string list \<Rightarrow> raw_candidate list" where
  "locator_reference test doc sels =
     (case find (\<lambda>sel. list_ex (\<lambda>el. test (js_trim (textContent el))) (doc sel)) sels of
        None \<Rightarrow> []
      | Some sel \<Rightarrow>
          map (report sel) (filter (\<lambda>el. test (js_trim (textContent el))) (doc sel)))"

text \<open>The elements the script reports: those whose trimmed text passes its test.\<close>

definition qualifies :: "node \<Rightarrow> bool" where
  "qualifies el = hasDollarDigits (js_trim (textContent el))"

text \<open>The five steps of section 4.4, for a given test on the parsed value in step 3.
  With \<open>\<lambda>v. v \<noteq> None\<close> it is the pipeline as the specification words it.\<close>

definition annotate :: "raw_candidate \<Rightarrow> candidate" where
  "annotate c =
     \<lparr>selector = selector c, text = text c, color = color c, struck = struck c,
      value = the (num (text c)), colorType = the (color_is_red_or_black (color c))\<rparr>"

definition reference_pick :: "(rat option \<Rightarrow> bool) \<Rightarrow> raw_candidate list \<Rightarrow> candidate option" where
  "reference_pick numeric cs =
     (let step1 = filter (\<lambda>c. \<not> struck c) cs;
          step2 = filter (\<lambda>c. color_is_red_or_black (color c) \<noteq> None) step1;
          step3 = filter (\<lambda>c. numeric (num (text c))) step2;
          red = filter (\<lambda>c. color_is_red_or_black (color c) = Some ''red'') step3;
          black = filter (\<lambda>c. color_is_red_or_black (color c) = Some ''black'') step3
      in case red of
           c # _ \<Rightarrow> Some (annotate c)
         | [] \<Rightarrow> (case black of c # _ \<Rightarrow> Some (annotate c) | [] \<Rightarrow> None))"

text \<open>Step 3 as the specification words it, and with the value zero discarded too.\<close>

definition has_value :: "rat option \<Rightarrow> bool" where
  "has_value v = (v \<noteq> None)"

definition has_nonzero_value :: "rat option \<Rightarrow> bool" where
  "has_nonzero_value v = (v \<noteq> None \<and> v \<noteq> Some 0)"

text \<open>The candidates that survive the three filters of the code.\<close>

definition keeps :: "raw_candidate \<Rightarrow> bool" where
  "keeps c = (\<not> struck c \<and> color_is_red_or_black (color c) \<noteq> None
              \<and> has_nonzero_value (num (text c)))"

text \<open>The decision table of section 4.6: keywords and result of each rule, in order.\<close>

definition unit_rules :: "(string list \<times> (string \<times> int option \<times> int option)) list" where
  "unit_rules =
     [([''six-pack'', ''six pack''], (''six-pack'', Some 6, None)),
      ([''nectar-mixto'', ''v8'', ''lata''], (''lata'', Some 1, None)),
      ([''kg'', ''kilo'', ''pulpa-de-res'', ''jamon-de-pierna'', ''tocineta'', ''cebolla''],
       (''kg'', None, None)),
      ([''chorizo''], (''pieza'', Some 1, Some 100)),
      ([''salchicha'', ''salchichas''], (''paquete'', Some 1, Some 800)),
      ([''paquete''], (''paquete'', Some 1, Some 800))]"

definition decision_table :: "string \<Rightarrow> string \<times> int option \<times> int option" where
  "decision_table low =
     (case find (\<lambda>(keys, res). list_ex (\<lambda>k. contains k low) keys) unit_rules of
        Some (keys, res) \<Rightarrow> res
      | None \<Rightarrow> (''pieza'', Some 1, None))"

text \<open>The keywords of the first three rules, which stand before the chorizo rule.\<close>

definition earlier_markers :: "string list" where
  "earlier_markers = concat (map fst (take 3 unit_rules))"

text \<open>The pick of one polling attempt, if the attempt gets that far.\<close>

definition attempt_pick :: "attempt \<Rightarrow> candidate option" where
  "attempt_pick a =
     (case page_dom a of
        None \<Rightarrow> None
      | Some doc \<Rightarrow> pick_candidate (FIND_PRICE_JS doc PRICE_SELECTORS))"

text \<open>The time that \<open>k\<close> attempts without pick take, from attempt \<open>i\<close> on, each
  with the wait that follows it.\<close>

definition waited :: "(nat \<Rightarrow> attempt) \<Rightarrow> nat \<Rightarrow> nat \<Rightarrow> nat" where
  "waited env i k = (\<Sum>j = i..<i + k. took (env j) + 350 + overshoot (env j))"

text \<open>The price a record carries, and the invariant of section 3 on a record.\<close>

definition set_price :: "price_response \<Rightarrow> rat option" where
  "set_price r = (case price_per_kg r of Some p \<Rightarrow> Some p | None \<Rightarrow> unit_price r)"

definition exactly_one_price :: "price_response \<Rightarrow> bool" where
  "exactly_one_price r =
     ((price_per_kg r \<noteq> None \<and> unit_price r = None \<and> raw_unit r = Some ''kg'')
      \<or> (price_per_kg r = None \<and> unit_price r \<noteq> None \<and> raw_unit r \<noteq> Some ''kg''))"

text \<open>A server run: requests answered one after the other on the same cache.\<close>

fun serve :: "cache \<Rightarrow> (page \<times> string) list \<Rightarrow> (http_exception + price_response) list \<times> cache" where
  "serve c [] = ([], c)"
| "serve c ((pg, u) # reqs) =
     (let (res, c') = get_price c pg u; (out, c'') = serve c' reqs in (res # out, c''))"

subsection \<open>Example pages\<close>

text \<open>Three price elements as the retailer renders them, a page that shows them under
  one selector, an empty page, and the browser's answers for a request.\<close>

definition example_black :: node where
  "example_black = \<lparr>textContent = '' $90.00 '', cs_color = ''rgb(0, 0, 0)'',
     cs_textDecoration = ''none solid rgb(0, 0, 0)'', cs_textDecorationLine = ''none''\<rparr>"

definition example_red :: node where
  "example_red = \<lparr>textContent = ''$85.00'', cs_color = ''rgb(230, 0, 18)'',
     cs_textDecoration = ''none solid rgb(230, 0, 18)'', cs_textDecorationLine = ''none''\<rparr>"

definition example_struck :: node where
  "example_struck = \<lparr>textContent = ''$99.00'', cs_color = ''rgb(230, 0, 18)'',
     cs_textDecoration = ''line-through solid rgb(230, 0, 18)'',
     cs_textDecorationLine = ''line-through''\<rparr>"

definition example_doc :: document where
  "example_doc sel =
     (if sel = ''mat-label.as-price'' then [example_struck, example_black, example_red] else [])"

definition empty_doc :: document where
  "empty_doc sel = []"

definition slow_attempt :: "document option \<Rightarrow> attempt" where
  "slow_attempt d = \<lparr>page_dom = d, took = 6000, overshoot = 25\<rparr>"

definition example_page :: "(nat \<Rightarrow> attempt) \<Rightarrow> page" where
  "example_page env = \<lparr>load_failure = None, h1_inner_text = Some '' Chorizo Argentino '',
     attempts = env, started = 1000, body_inner_text = Some ''Chorizo Argentino $85.00''\<rparr>"

definition unreachable_page :: page where
  "unreachable_page = \<lparr>load_failure = Some ''Timeout 120000ms exceeded'', h1_inner_text = None,
     attempts = (\<lambda>i. slow_attempt None), started = 0, body_inner_text = None\<rparr>"

text \<open>A page whose only price element has a space between the dollar sign and the
  amount.\<close>

definition spaced_node :: node where
  "spaced_node = \<lparr>textContent = ''$ 12.50'', cs_color = ''rgb(0, 0, 0)'',
     cs_textDecoration = ''none solid rgb(0, 0, 0)'', cs_textDecorationLine = ''none''\<rparr>"

definition spaced_doc :: document where
  "spaced_doc sel = (if sel = ''mat-label.as-price'' then [spaced_node] else [])"

text \<open>A page with a label without amount under the first selector, a red price under
  the second and prices under a later one.\<close>

definition label_node :: node where
  "label_node = \<lparr>textContent = ''Precio $'', cs_color = ''rgb(230, 0, 18)'',
     cs_textDecoration = ''none solid rgb(230, 0, 18)'', cs_textDecorationLine = ''none''\<rparr>"

definition two_level_doc :: document where
  "two_level_doc sel =
     (if sel = ''mat-label.as-discount-price.as-font-red-blood'' then [label_node]
      else if sel = ''mat-label.as-price.as-font-red-blood'' then [label_node, example_red]
      else if sel = ''mat-label.as-price'' then [example_struck, example_black, example_red]
      else [])"

text \<open>Candidates as the locator reports them: a red price, a black price, a red price
  of zero, and a red price that is struck through.\<close>

definition red85 :: raw_candidate where
  "red85 = \<lparr>selector = ''mat-label.as-price'', text = ''$85.00'', color = ''rgb(230, 0, 18)'',
     struck = False\<rparr>"

definition black90 :: raw_candidate where
  "black90 = \<lparr>selector = ''mat-label.as-price'', text = ''$90.00'', color = ''rgb(0, 0, 0)'',
     struck = False\<rparr>"

definition red_zero :: raw_candidate where
  "red_zero = \<lparr>selector = ''mat-label.as-price'', text = ''$0.00'', color = ''rgb(230, 0, 18)'',
     struck = False\<rparr>"

definition red_struck :: raw_candidate where
  "red_struck = \<lparr>selector = ''mat-label.as-price'', text = ''$99.00'', color = ''rgb(230, 0, 18)'',
     struck = True\<rparr>"

section \<open>Properties\<close>

subsection \<open>The polling loop, step by step\<close>

declare poll.simps [simp del]

lemma poll_expired:
  "\<not> now < deadline \<Longrightarrow>
   poll env i now deadline raw = \<lparr>price_val = None, picked = None, raw_list = raw, clock = now\<rparr>"
  by (subst poll.simps) simp

lemma poll_raised:
  "now < deadline \<Longrightarrow> page_dom (env i) = None \<Longrightarrow>
   poll env i now deadline raw =
   poll env (i + 1) (now + took (env i) + 350 + overshoot (env i)) deadline raw"
  by (subst poll.simps) simp

lemma poll_found:
  "now < deadline \<Longrightarrow> attempt_pick (env i) = Some p \<Longrightarrow>
   \<exists>raw'. poll env i now deadline raw =
     \<lparr>price_val = Some (value p), picked = Some p, raw_list = raw', clock = now + took (env i)\<rparr>"
  by (subst poll.simps) (auto simp: attempt_pick_def Let_def split: option.splits)

lemma poll_no_pick_step:
  "now < deadline \<Longrightarrow> attempt_pick (env i) = None \<Longrightarrow>
   \<exists>raw'. poll env i now deadline raw =
     poll env (i + 1) (now + took (env i) + 350 + overshoot (env i)) deadline raw'"
  by (subst poll.simps) (auto simp: attempt_pick_def Let_def split: option.splits)

lemma poll_never_picks:
  "(\<And>j. i \<le> j \<Longrightarrow> attempt_pick (env j) = None) \<Longrightarrow>
   price_val (poll env i now deadline raw) = None \<and>
   picked (poll env i now deadline raw) = None \<and>
   deadline \<le> clock (poll env i now deadline raw)"
proof (induction env i now deadline raw rule: poll.induct)
  case (1 env i now deadline raw)
  show ?case
  proof (cases "now < deadline")
    case False
    then show ?thesis by (simp add: poll_expired)
  next
    case True
    have nopick: "attempt_pick (env i) = None" using "1.prems" by simp
    have later: "\<And>j. i + 1 \<le> j \<Longrightarrow> attempt_pick (env j) = None" using "1.prems" by simp
    show ?thesis
    proof (cases "page_dom (env i)")
      case None
      from "1.IH"(1)[OF True None later] show ?thesis
        by (simp add: poll_raised[where env=env and i=i, OF True None])
    next
      case (Some doc)
      have np: "pick_candidate (FIND_PRICE_JS doc PRICE_SELECTORS) = None"
        using nopick Some by (simp add: attempt_pick_def)
      from "1.IH"(2)[OF True Some refl np later] show ?thesis
        by (subst (1 2 3) poll.simps) (simp add: True Some np)
    qed
  qed
qed

lemma poll_result_shape:
  "price_val (poll env i now deadline raw) = Some v \<Longrightarrow>
   \<exists>p j. i \<le> j \<and> attempt_pick (env j) = Some p \<and>
         picked (poll env i now deadline raw) = Some p \<and> v = value p"
proof (induction env i now deadline raw rule: poll.induct)
  case (1 env i now deadline raw)
  show ?case
  proof (cases "now < deadline")
    case False
    with "1.prems" show ?thesis by (simp add: poll_expired)
  next
    case True
    show ?thesis
    proof (cases "attempt_pick (env i)")
      case (Some p)
      from poll_found[where env=env and i=i and raw=raw, OF True Some] "1.prems" show ?thesis
        using Some by auto
    next
      case None
      show ?thesis
      proof (cases "page_dom (env i)")
        case dn: None
        from "1.prems" have "price_val (poll env (i + 1) (now + took (env i) + 350 + overshoot (env i)) deadline raw) = Some v"
          by (simp add: poll_raised[where env=env and i=i, OF True dn])
        from "1.IH"(1)[OF True dn this] show ?thesis
          by (simp add: poll_raised[where env=env and i=i, OF True dn]) (metis Suc_leD)
      next
        case (Some doc)
        have np: "pick_candidate (FIND_PRICE_JS doc PRICE_SELECTORS) = None"
          using None Some by (simp add: attempt_pick_def)
        have eq: "poll env i now deadline raw = poll env (i + 1) (now + took (env i) + 350 + overshoot (env i)) deadline (FIND_PRICE_JS doc PRICE_SELECTORS)"
          by (subst poll.simps) (simp add: True Some np)
        from "1.prems" have "price_val (poll env (i + 1) (now + took (env i) + 350 + overshoot (env i)) deadline (FIND_PRICE_JS doc PRICE_SELECTORS)) = Some v"
          by (simp add: eq)
        from "1.IH"(2)[OF True Some refl np this] show ?thesis
          by (simp add: eq) (metis Suc_leD)
      qed
    qed
  qed
qed


subsection \<open>The orchestrator, case by case\<close>

lemma get_price_hit:
  "cache u = Some r \<Longrightarrow> get_price cache pg u = (Inr r, cache)"
  by (simp add: get_price_def)

lemma get_price_load_failure:
  "cache u = None \<Longrightarrow> load_failure pg = Some e \<Longrightarrow>
   get_price cache pg u = (Inl (HTTPException 502 (''No se pudo cargar '' @ u @ '': '' @ e)), cache)"
  by (simp add: get_price_def)

lemma get_price_not_found:
  "cache u = None \<Longrightarrow> load_failure pg = None \<Longrightarrow>
   price_val (poll (attempts pg) 0 (started pg) (started pg + 18000) []) = None \<Longrightarrow>
   get_price cache pg u = (Inl (HTTPException 500 not_found_detail), cache)"
  by (simp add: get_price_def)

lemma build_response_prices:
  "price_per_kg (build_response u name pv t) = (if raw_unit (build_response u name pv t) = Some ''kg'' then Some pv else None)"
  "unit_price (build_response u name pv t) = (if raw_unit (build_response u name pv t) = Some ''kg'' then None else Some pv)"
  "raw_unit (build_response u name pv t) = Some (fst (guess_units u t))"
  "unit_pack_size (build_response u name pv t) = fst (snd (guess_units u t))"
  "unit_weight_g (build_response u name pv t) = snd (snd (guess_units u t))"
  "url (build_response u name pv t) = u"
  "currency (build_response u name pv t) = ''MXN''"
  "product_name (build_response u name pv t) = name"
  by (simp_all add: build_response_def split: prod.splits)

lemma get_price_fresh:
  assumes "cache u = None" "load_failure pg = None"
    and "price_val (poll (attempts pg) 0 (started pg) (started pg + 18000) []) = Some pv"
  shows "get_price cache pg u =
     (Inr (build_response u (map_option strip (h1_inner_text pg)) pv
            (case body_inner_text pg of None \<Rightarrow> [] | Some t \<Rightarrow> t)),
      cache(u \<mapsto> build_response u (map_option strip (h1_inner_text pg)) pv
            (case body_inner_text pg of None \<Rightarrow> [] | Some t \<Rightarrow> t)))"
  using assms by (simp add: get_price_def Let_def)

lemma get_price_cases:
  obtains (hit) r where "cache u = Some r" "get_price cache pg u = (Inr r, cache)"
  | (load_failure) e where "get_price cache pg u = (Inl (HTTPException 502 e), cache)"
  | (not_found) "get_price cache pg u = (Inl (HTTPException 500 not_found_detail), cache)"
  | (fresh) pv resp where "cache u = None"
      "price_val (poll (attempts pg) 0 (started pg) (started pg + 18000) []) = Some pv"
      "get_price cache pg u = (Inr resp, cache(u \<mapsto> resp))"
      "price_per_kg resp = (if raw_unit resp = Some ''kg'' then Some pv else None)"
      "unit_price resp = (if raw_unit resp = Some ''kg'' then None else Some pv)"
proof (cases "cache u")
  case (Some r)
  then show ?thesis using hit get_price_hit by blast
next
  case None
  show ?thesis
  proof (cases "load_failure pg")
    case (Some e)
    then show ?thesis using load_failure get_price_load_failure[where cache=cache and u=u, OF None Some] by blast
  next
    case lf: None
    show ?thesis
    proof (cases "price_val (poll (attempts pg) 0 (started pg) (started pg + 18000) [])")
      case pn: None
      then show ?thesis using not_found get_price_not_found[where cache=cache and u=u, OF None lf pn] by blast
    next
      case (Some pv)
      show ?thesis
        by (rule fresh[OF None Some get_price_fresh[where cache=cache and u=u, OF None lf Some]])
           (rule build_response_prices)+
    qed
  qed
qed

lemma example_attempt_pick:
  "attempt_pick (slow_attempt (Some example_doc)) = Some
   \<lparr>selector = ''mat-label.as-price'', text = ''$85.00'', color = ''rgb(230, 0, 18)'', struck = False,
    value = 85, colorType = ''red''\<rparr>"
  by code_simp

lemma empty_attempt_pick: "attempt_pick (slow_attempt (Some empty_doc)) = None"
  by code_simp

lemma raised_attempt_pick: "attempt_pick (slow_attempt None) = None"
  by (simp add: attempt_pick_def slow_attempt_def)

lemma poll_clock_bound:
  "(\<And>j. took (env j) \<le> T \<and> overshoot (env j) \<le> W) \<Longrightarrow>
   clock (poll env i now deadline raw) \<le> max now (deadline + T + 350 + W)"
proof (induction env i now deadline raw rule: poll.induct)
  case (1 env i now deadline raw)
  have b: "took (env i) \<le> T" "overshoot (env i) \<le> W" using "1.prems" by simp_all
  show ?case
  proof (cases "now < deadline")
    case False
    then show ?thesis by (simp add: poll_expired)
  next
    case True
    show ?thesis
    proof (cases "page_dom (env i)")
      case None
      from "1.IH"(1)[OF True None "1.prems"] b True show ?thesis
        by (simp add: poll_raised[where env=env and i=i, OF True None])
    next
      case (Some doc)
      show ?thesis
      proof (cases "pick_candidate (FIND_PRICE_JS doc PRICE_SELECTORS)")
        case np: None
        have eq: "poll env i now deadline raw = poll env (i + 1) (now + took (env i) + 350 + overshoot (env i)) deadline (FIND_PRICE_JS doc PRICE_SELECTORS)"
          by (subst poll.simps) (simp add: True Some np)
        from "1.IH"(2)[OF True Some refl np "1.prems"] b True show ?thesis
          by (simp add: eq)
      next
        case (Some p)
        have "clock (poll env i now deadline raw) = now + took (env i)"
          by (subst poll.simps) (simp add: True \<open>page_dom (env i) = Some doc\<close> Some)
        with b True show ?thesis by simp
      qed
    qed
  qed
qed

subsection \<open>The polling loop ends\<close>

text \<open>
  Claim C7. The polling loop is a total function. If no attempt yields a pick, it ends
  with no price and no picked candidate, at a clock reading at or after the deadline
  of 18 seconds (18000 ms) after its start, and no later than one attempt and one
  wait after the deadline; \<open>get_price\<close> then
  answers with the HTTP 500 exception that carries the fixed message. If an attempt before
  the deadline yields a pick, the loop ends in that attempt with the value of that
  candidate, without waiting.
\<close>

theorem polling_terminates_timed_out_or_found:
  "((\<forall>j. attempt_pick (env j) = None) \<longrightarrow>
      price_val (poll env 0 t0 (t0 + 18000) []) = None \<and>
      picked (poll env 0 t0 (t0 + 18000) []) = None \<and>
      t0 + 18000 \<le> clock (poll env 0 t0 (t0 + 18000) []))
   \<and> ((\<forall>j. took (env j) \<le> T \<and> overshoot (env j) \<le> W) \<longrightarrow>
      clock (poll env 0 t0 (t0 + 18000) []) \<le> t0 + 18000 + T + 350 + W)
   \<and> ((\<forall>j. attempt_pick (attempts pg j) = None) \<and> cache u = None \<and> load_failure pg = None \<longrightarrow>
      get_price cache pg u = (Inl (HTTPException 500 not_found_detail), cache))
   \<and> (now < deadline \<and> attempt_pick (env i) = Some p \<longrightarrow>
      price_val (poll env i now deadline raw) = Some (value p) \<and>
      picked (poll env i now deadline raw) = Some p \<and>
      clock (poll env i now deadline raw) = now + took (env i))"
proof (intro conjI impI)
  assume a: "\<forall>j. attempt_pick (env j) = None"
  from poll_never_picks[of 0 env t0 "t0 + 18000" "[]"] a
  show "price_val (poll env 0 t0 (t0 + 18000) []) = None"
    and "picked (poll env 0 t0 (t0 + 18000) []) = None"
    and "t0 + 18000 \<le> clock (poll env 0 t0 (t0 + 18000) [])"
    by simp_all
next
  assume "\<forall>j. took (env j) \<le> T \<and> overshoot (env j) \<le> W"
  with poll_clock_bound[of env T W 0 t0 "t0 + 18000" "[]"]
  show "clock (poll env 0 t0 (t0 + 18000) []) \<le> t0 + 18000 + T + 350 + W"
    by simp
next
  assume a: "(\<forall>j. attempt_pick (attempts pg j) = None) \<and> cache u = None \<and> load_failure pg = None"
  from poll_never_picks[of 0 "attempts pg" "started pg" "started pg + 18000" "[]"] a
  have "price_val (poll (attempts pg) 0 (started pg) (started pg + 18000) []) = None" by simp
  with a show "get_price cache pg u = (Inl (HTTPException 500 not_found_detail), cache)"
    by (simp add: get_price_not_found)
next
  assume a: "now < deadline \<and> attempt_pick (env i) = Some p"
  from poll_found[where env=env and i=i and raw=raw and p=p and now=now and deadline=deadline] a
  show "price_val (poll env i now deadline raw) = Some (value p)"
    and "picked (poll env i now deadline raw) = Some p"
    and "clock (poll env i now deadline raw) = now + took (env i)"
    by auto
qed

theorem polling_terminates_timed_out_or_found_witness:
  "price_val (poll (\<lambda>j. slow_attempt (Some empty_doc)) 0 1000 (1000 + 18000) []) = None
   \<and> 1000 + 18000 \<le> clock (poll (\<lambda>j. slow_attempt (Some empty_doc)) 0 1000 (1000 + 18000) [])
   \<and> clock (poll (\<lambda>j. slow_attempt (Some empty_doc)) 0 1000 (1000 + 18000) []) \<le> 1000 + 18000 + 6000 + 350 + 25
   \<and> get_price Map.empty (example_page (\<lambda>j. slow_attempt (Some empty_doc))) ''https://alsuper.com/p/1''
       = (Inl (HTTPException 500 not_found_detail), Map.empty)
   \<and> price_val (poll (\<lambda>j. slow_attempt (Some example_doc)) 0 1000 19000 []) = Some 85"
  using polling_terminates_timed_out_or_found
    [of "\<lambda>j. slow_attempt (Some empty_doc)" 1000 6000 25
        "example_page (\<lambda>j. slow_attempt (Some empty_doc))" Map.empty "''https://alsuper.com/p/1''"
        1000 19000 0
        "\<lparr>selector = ''mat-label.as-price'', text = ''$85.00'', color = ''rgb(230, 0, 18)'',
          struck = False, value = 85, colorType = ''red''\<rparr>" "[]"]
    polling_terminates_timed_out_or_found
    [of "\<lambda>j. slow_attempt (Some example_doc)" 1000 6000 25
        "example_page (\<lambda>j. slow_attempt (Some empty_doc))" Map.empty "''https://alsuper.com/p/1''"
        1000 19000 0
        "\<lparr>selector = ''mat-label.as-price'', text = ''$85.00'', color = ''rgb(230, 0, 18)'',
          struck = False, value = 85, colorType = ''red''\<rparr>" "[]"]
  by (simp add: empty_attempt_pick example_attempt_pick example_page_def)
     (simp add: slow_attempt_def)

subsection \<open>The cache\<close>

lemma example_poll_found:
  "price_val (poll (\<lambda>j. slow_attempt (Some example_doc)) 0 1000 (1000 + 18000) []) = Some 85"
  using poll_found[where env="\<lambda>j. slow_attempt (Some example_doc)" and i=0 and now=1000
      and deadline="1000 + 18000" and raw="[]", OF _ example_attempt_pick]
  by auto

lemma example_name: "map_option strip (Some '' Chorizo Argentino '') = Some ''Chorizo Argentino''"
  by code_simp

lemma example_get_price:
  "c u = None \<Longrightarrow>
   get_price c (example_page (\<lambda>j. slow_attempt (Some example_doc))) u =
     (Inr (build_response u (Some ''Chorizo Argentino'') 85 ''Chorizo Argentino $85.00''),
      c(u \<mapsto> build_response u (Some ''Chorizo Argentino'') 85 ''Chorizo Argentino $85.00''))"
  using get_price_fresh[where cache=c and u=u
      and pg="example_page (\<lambda>j. slow_attempt (Some example_doc))" and pv=85]
    example_poll_found example_name
  by (simp add: example_page_def)

lemma example_response:
  "build_response ''https://alsuper.com/producto/chorizo-argentino'' (Some ''Chorizo Argentino'') 85
     ''Chorizo Argentino $85.00'' =
   \<lparr>url = ''https://alsuper.com/producto/chorizo-argentino'', product_name = Some ''Chorizo Argentino'',
     price_per_kg = None, unit_price = Some 85, unit_pack_size = Some 1, unit_weight_g = Some 100,
     currency = ''MXN'', raw_unit = Some ''pieza''\<rparr>"
  by code_simp

lemma example_response_kg:
  "build_response ''https://alsuper.com/producto/chorizo-argentino-kg'' (Some ''Chorizo Argentino'') 85
     ''Chorizo Argentino $85.00'' =
   \<lparr>url = ''https://alsuper.com/producto/chorizo-argentino-kg'', product_name = Some ''Chorizo Argentino'',
     price_per_kg = Some 85, unit_price = None, unit_pack_size = None, unit_weight_g = None,
     currency = ''MXN'', raw_unit = Some ''kg''\<rparr>"
  by code_simp

text \<open>
  Claim C9. Whatever a request ends in, an error leaves the cache as it was, and the
  only errors are the 502 of a failed load and the 500 of a price not found. A record
  that is returned is the one stored under the URL of the request, the other keys keep
  what they had, and the cache changes only by storing the returned record of an
  extraction under that URL.
\<close>

theorem cache_written_only_on_success:
  assumes "get_price cache pg u = (res, cache')"
  shows "(\<forall>e. res = Inl e \<longrightarrow> cache' = cache \<and> (status_code e = 502 \<or> status_code e = 500))
       \<and> (\<forall>r. res = Inr r \<longrightarrow> cache' u = Some r \<and> (\<forall>k. k \<noteq> u \<longrightarrow> cache' k = cache k))
       \<and> (cache' \<noteq> cache \<longrightarrow> (\<exists>r. res = Inr r \<and> cache u = None \<and> cache' = cache(u \<mapsto> r)))"
proof (cases rule: get_price_cases[of cache u pg])
  case (hit r)
  with assms show ?thesis by auto
next
  case (load_failure e)
  with assms show ?thesis by auto
next
  case not_found
  with assms show ?thesis by auto
next
  case (fresh pv resp)
  with assms show ?thesis by auto
qed

theorem cache_written_only_on_success_witness:
  "get_price Map.empty unreachable_page ''https://alsuper.com/p/1'' =
     (Inl (HTTPException 502 ''No se pudo cargar https://alsuper.com/p/1: Timeout 120000ms exceeded''),
      Map.empty)
   \<and> status_code (HTTPException 502 ''No se pudo cargar https://alsuper.com/p/1: Timeout 120000ms exceeded'') = 502
   \<and> snd (get_price Map.empty (example_page (\<lambda>j. slow_attempt (Some example_doc)))
            ''https://alsuper.com/producto/chorizo-argentino'')
        ''https://alsuper.com/producto/chorizo-argentino''
      = Some \<lparr>url = ''https://alsuper.com/producto/chorizo-argentino'',
           product_name = Some ''Chorizo Argentino'',
           price_per_kg = None, unit_price = Some 85, unit_pack_size = Some 1,
           unit_weight_g = Some 100, currency = ''MXN'', raw_unit = Some ''pieza''\<rparr>
   \<and> snd (get_price Map.empty (example_page (\<lambda>j. slow_attempt (Some example_doc)))
            ''https://alsuper.com/producto/chorizo-argentino'')
        ''https://alsuper.com/p/1'' = None"
proof -
  have e1: "get_price Map.empty unreachable_page ''https://alsuper.com/p/1'' =
     (Inl (HTTPException 502 ''No se pudo cargar https://alsuper.com/p/1: Timeout 120000ms exceeded''),
      Map.empty)"
    by (simp add: get_price_def unreachable_page_def)
  have e2: "get_price Map.empty (example_page (\<lambda>j. slow_attempt (Some example_doc)))
            ''https://alsuper.com/producto/chorizo-argentino'' =
      (Inr (build_response ''https://alsuper.com/producto/chorizo-argentino'' (Some ''Chorizo Argentino'') 85 ''Chorizo Argentino $85.00''),
       Map.empty(''https://alsuper.com/producto/chorizo-argentino'' \<mapsto>
         build_response ''https://alsuper.com/producto/chorizo-argentino'' (Some ''Chorizo Argentino'') 85 ''Chorizo Argentino $85.00''))"
    by (rule example_get_price) simp
  from cache_written_only_on_success[OF e1] cache_written_only_on_success[OF e2] e1
  show ?thesis
    by (simp add: e2 example_response)
qed


subsection \<open>Invariants of the records a server run returns\<close>

lemma serve_invariant:
  assumes step: "\<And>c pg u res c'. (\<forall>k r. c k = Some r \<longrightarrow> P r) \<Longrightarrow> get_price c pg u = (res, c')
              \<Longrightarrow> (\<forall>k r. c' k = Some r \<longrightarrow> P r) \<and> (\<forall>r. res = Inr r \<longrightarrow> P r)"
    and inv: "\<forall>k r. c k = Some r \<longrightarrow> P r"
  shows "(\<forall>r. Inr r \<in> set (fst (serve c reqs)) \<longrightarrow> P r) \<and> (\<forall>k r. snd (serve c reqs) k = Some r \<longrightarrow> P r)"
  using inv
proof (induction reqs arbitrary: c)
  case Nil
  then show ?case by simp
next
  case (Cons rq reqs)
  obtain pg u where rq: "rq = (pg, u)" by (cases rq)
  obtain res c' where g: "get_price c pg u = (res, c')" by (cases "get_price c pg u")
  from step[OF Cons.prems g] have c': "\<forall>k r. c' k = Some r \<longrightarrow> P r" and r: "\<forall>r. res = Inr r \<longrightarrow> P r"
    by blast+
  from Cons.IH[OF c'] r show ?case
    by (auto simp: rq g split: prod.splits)
qed

lemma fresh_record_exactly_one: "exactly_one_price (build_response u name pv t)"
  by (simp add: exactly_one_price_def build_response_def split: prod.splits)

lemma get_price_exactly_one:
  assumes "\<forall>k r. c k = Some r \<longrightarrow> exactly_one_price r" "get_price c pg u = (res, c')"
  shows "(\<forall>k r. c' k = Some r \<longrightarrow> exactly_one_price r) \<and> (\<forall>r. res = Inr r \<longrightarrow> exactly_one_price r)"
proof (cases rule: get_price_cases[of c u pg])
  case (hit r)
  with assms show ?thesis by auto
next
  case (load_failure e)
  with assms show ?thesis by auto
next
  case not_found
  with assms show ?thesis by auto
next
  case (fresh pv resp)
  then have "exactly_one_price resp"
    by (auto simp: exactly_one_price_def split: if_splits)
  with fresh assms show ?thesis by auto
qed

lemma serve_exactly_one:
  assumes "Inr r \<in> set (fst (serve Map.empty reqs))"
  shows "exactly_one_price r"
proof -
  have "(\<forall>r. Inr r \<in> set (fst (serve Map.empty reqs)) \<longrightarrow> exactly_one_price r) \<and>
        (\<forall>k r. snd (serve Map.empty reqs) k = Some r \<longrightarrow> exactly_one_price r)"
  proof (rule serve_invariant[where P=exactly_one_price and c=Map.empty])
    fix c :: cache and pg u res c'
    assume "\<forall>k r. c k = Some r \<longrightarrow> exactly_one_price r" "get_price c pg u = (res, c')"
    then show "(\<forall>k r. c' k = Some r \<longrightarrow> exactly_one_price r) \<and> (\<forall>r. res = Inr r \<longrightarrow> exactly_one_price r)"
      by (rule get_price_exactly_one)
  next
    show "\<forall>k r. Map.empty k = Some r \<longrightarrow> exactly_one_price r" by simp
  qed
  with assms show ?thesis by blast
qed

text \<open>
  Claim C4. In a run of the server that starts with an empty cache, every record returned
  (fresh or from the cache) has exactly one of \<open>price_per_kg\<close> and \<open>unit_price\<close> set:
  \<open>price_per_kg\<close> when \<open>raw_unit\<close> is kg, \<open>unit_price\<close> otherwise. A record of a
  fresh extraction carries in that field the value of the candidate the polling loop picked.
\<close>

theorem exactly_one_price_on_success:
  "(\<forall>r. Inr r \<in> set (fst (serve Map.empty reqs)) \<longrightarrow>
      (raw_unit r = Some ''kg'' \<longrightarrow> price_per_kg r \<noteq> None \<and> unit_price r = None) \<and>
      (raw_unit r \<noteq> Some ''kg'' \<longrightarrow> unit_price r \<noteq> None \<and> price_per_kg r = None))
   \<and> (cache u = None \<and> get_price cache pg u = (Inr r', cache') \<longrightarrow>
      (\<exists>p. picked (poll (attempts pg) 0 (started pg) (started pg + 18000) []) = Some p \<and>
           (raw_unit r' = Some ''kg'' \<longrightarrow> price_per_kg r' = Some (value p) \<and> unit_price r' = None) \<and>
           (raw_unit r' \<noteq> Some ''kg'' \<longrightarrow> unit_price r' = Some (value p) \<and> price_per_kg r' = None)))"
proof (intro conjI allI impI)
  fix r
  assume "Inr r \<in> set (fst (serve Map.empty reqs))"
  then have e: "exactly_one_price r" by (rule serve_exactly_one)
  { assume "raw_unit r = Some ''kg''"
    with e show "price_per_kg r \<noteq> None" "unit_price r = None"
      by (simp_all add: exactly_one_price_def) }
  { assume "raw_unit r \<noteq> Some ''kg''"
    with e show "unit_price r \<noteq> None" "price_per_kg r = None"
      by (simp_all add: exactly_one_price_def) }
next
  assume a: "cache u = None \<and> get_price cache pg u = (Inr r', cache')"
  show "\<exists>p. picked (poll (attempts pg) 0 (started pg) (started pg + 18000) []) = Some p \<and>
           (raw_unit r' = Some ''kg'' \<longrightarrow> price_per_kg r' = Some (value p) \<and> unit_price r' = None) \<and>
           (raw_unit r' \<noteq> Some ''kg'' \<longrightarrow> unit_price r' = Some (value p) \<and> price_per_kg r' = None)"
  proof (cases rule: get_price_cases[of cache u pg])
    case (hit r)
    with a show ?thesis by simp
  next
    case (load_failure e)
    with a show ?thesis by simp
  next
    case not_found
    with a show ?thesis by simp
  next
    case (fresh pv resp)
    from poll_result_shape[OF fresh(2)] obtain p where
      "picked (poll (attempts pg) 0 (started pg) (started pg + 18000) []) = Some p" "pv = value p"
      by blast
    with fresh a show ?thesis by auto
  qed
qed

theorem exactly_one_price_on_success_witness:
  "Inr \<lparr>url = ''https://alsuper.com/producto/chorizo-argentino-kg'', product_name = Some ''Chorizo Argentino'',
     price_per_kg = Some 85, unit_price = None, unit_pack_size = None, unit_weight_g = None,
     currency = ''MXN'', raw_unit = Some ''kg''\<rparr>
     \<in> set (fst (serve Map.empty
          [(example_page (\<lambda>j. slow_attempt (Some example_doc)), ''https://alsuper.com/producto/chorizo-argentino''),
           (example_page (\<lambda>j. slow_attempt (Some example_doc)), ''https://alsuper.com/producto/chorizo-argentino-kg''),
           (unreachable_page, ''https://alsuper.com/producto/chorizo-argentino'')]))
   \<and> Inr \<lparr>url = ''https://alsuper.com/producto/chorizo-argentino'', product_name = Some ''Chorizo Argentino'',
     price_per_kg = None, unit_price = Some 85, unit_pack_size = Some 1, unit_weight_g = Some 100,
     currency = ''MXN'', raw_unit = Some ''pieza''\<rparr>
     \<in> set (fst (serve Map.empty
          [(example_page (\<lambda>j. slow_attempt (Some example_doc)), ''https://alsuper.com/producto/chorizo-argentino''),
           (example_page (\<lambda>j. slow_attempt (Some example_doc)), ''https://alsuper.com/producto/chorizo-argentino-kg''),
           (unreachable_page, ''https://alsuper.com/producto/chorizo-argentino'')]))
   \<and> picked (poll (\<lambda>j. slow_attempt (Some example_doc)) 0 1000 (1000 + 18000) []) \<noteq> None"
proof -
  let ?reqs = "[(example_page (\<lambda>j. slow_attempt (Some example_doc)), ''https://alsuper.com/producto/chorizo-argentino''),
           (example_page (\<lambda>j. slow_attempt (Some example_doc)), ''https://alsuper.com/producto/chorizo-argentino-kg''),
           (unreachable_page, ''https://alsuper.com/producto/chorizo-argentino'')]"
  have run: "fst (serve Map.empty ?reqs) =
      [Inr (build_response ''https://alsuper.com/producto/chorizo-argentino'' (Some ''Chorizo Argentino'') 85 ''Chorizo Argentino $85.00''),
       Inr (build_response ''https://alsuper.com/producto/chorizo-argentino-kg'' (Some ''Chorizo Argentino'') 85 ''Chorizo Argentino $85.00''),
       Inr (build_response ''https://alsuper.com/producto/chorizo-argentino'' (Some ''Chorizo Argentino'') 85 ''Chorizo Argentino $85.00'')]"
    by (simp add: example_get_price get_price_hit)
  have fresh: "get_price Map.empty (example_page (\<lambda>j. slow_attempt (Some example_doc)))
            ''https://alsuper.com/producto/chorizo-argentino'' =
      (Inr (build_response ''https://alsuper.com/producto/chorizo-argentino'' (Some ''Chorizo Argentino'') 85 ''Chorizo Argentino $85.00''),
       Map.empty(''https://alsuper.com/producto/chorizo-argentino'' \<mapsto>
         build_response ''https://alsuper.com/producto/chorizo-argentino'' (Some ''Chorizo Argentino'') 85 ''Chorizo Argentino $85.00''))"
    by (rule example_get_price) simp
  from exactly_one_price_on_success[of ?reqs Map.empty "''https://alsuper.com/producto/chorizo-argentino''"
      "example_page (\<lambda>j. slow_attempt (Some example_doc))" _ _, THEN conjunct2] fresh
  have "picked (poll (\<lambda>j. slow_attempt (Some example_doc)) 0 1000 (1000 + 18000) []) \<noteq> None"
    by (auto simp: example_page_def)
  moreover
  from exactly_one_price_on_success[of ?reqs, THEN conjunct1]
  have "Inr (build_response ''https://alsuper.com/producto/chorizo-argentino-kg'' (Some ''Chorizo Argentino'') 85 ''Chorizo Argentino $85.00'')
      \<in> set (fst (serve Map.empty ?reqs))"
    unfolding run by simp
  ultimately show ?thesis
    unfolding run by (simp add: example_response example_response_kg)
qed

subsection \<open>Digits\<close>

lemma is_digit_val: "is_digit c \<Longrightarrow> 0 \<le> digit_val c \<and> digit_val c \<le> 9"
  by (auto simp: is_digit_def digit_val_def)

lemma point_not_digit [simp]: "\<not> is_digit (CHR ''.'')"
  by (simp add: is_digit_def)

lemma digit_not_space: "is_digit c \<Longrightarrow> \<not> py_space c"
  by (auto simp: is_digit_def py_space_def)

lemma digit_not_separator: "is_digit c \<Longrightarrow> c \<noteq> CHR '','' \<and> c \<noteq> CHR ''$''"
  by (auto simp: is_digit_def)

lemma foldl_digits_nonneg:
  "0 \<le> a \<Longrightarrow> list_all is_digit ds \<Longrightarrow> 0 \<le> foldl (\<lambda>a c. 10 * a + digit_val c) a ds"
proof (induction ds arbitrary: a)
  case Nil
  then show ?case by simp
next
  case (Cons d ds)
  from Cons.prems have "0 \<le> 10 * a + digit_val d"
    using is_digit_val[of d] by simp
  with Cons show ?case by simp
qed

lemma int_of_digits_nonneg: "list_all is_digit ds \<Longrightarrow> 0 \<le> int_of_digits ds"
  by (simp add: int_of_digits_def foldl_digits_nonneg)

subsection \<open>The regular expression of the numeric parser\<close>

lemma fraction_part_cases:
  obtains (none) "fraction_part r = []"
      "\<not> (\<exists>d rest. r = CHR ''.'' # d # rest \<and> is_digit d)"
  | (one) d rest where "r = CHR ''.'' # d # rest" "is_digit d" "fraction_part r = [CHR ''.'', d]"
      "rest = [] \<or> \<not> is_digit (hd rest)"
  | (two) d e rest where "r = CHR ''.'' # d # e # rest" "is_digit d" "is_digit e"
      "fraction_part r = [CHR ''.'', d, e]"
proof (cases r)
  case Nil
  then show ?thesis using none by (simp add: fraction_part_def)
next
  case (Cons c r1)
  show ?thesis
  proof (cases r1)
    case Nil
    with Cons show ?thesis using none by (simp add: fraction_part_def)
  next
    case c2: (Cons d r2)
    show ?thesis
    proof (cases "c = CHR ''.'' \<and> is_digit d")
      case False
      with Cons c2 show ?thesis using none by (auto simp: fraction_part_def)
    next
      case True
      show ?thesis
      proof (cases r2)
        case Nil
        with Cons c2 True show ?thesis using one[of d "[]"] by (simp add: fraction_part_def)
      next
        case c3: (Cons e r3)
        show ?thesis
        proof (cases "is_digit e")
          case True
          with Cons c2 c3 \<open>c = CHR ''.'' \<and> is_digit d\<close> show ?thesis
            using two[of d e r3] by (simp add: fraction_part_def)
        next
          case False
          with Cons c2 c3 \<open>c = CHR ''.'' \<and> is_digit d\<close> show ?thesis
            using one[of d "e # r3"] by (simp add: fraction_part_def)
        qed
      qed
    qed
  qed
qed

lemma takeWhile_digits_then:
  "list_all is_digit ds \<Longrightarrow> r = [] \<or> \<not> is_digit (hd r) \<Longrightarrow>
   takeWhile is_digit (ds @ r) = ds \<and> dropWhile is_digit (ds @ r) = r"
proof (induction ds)
  case Nil
  then show ?case by (cases r) auto
next
  case (Cons d ds)
  then show ?case by simp
qed

lemma price_run_digits:
  "ds \<noteq> [] \<Longrightarrow> list_all is_digit ds \<Longrightarrow> price_run ds"
proof -
  assume a: "ds \<noteq> []" "list_all is_digit ds"
  then have tw: "takeWhile is_digit ds = ds" and dw: "dropWhile is_digit ds = []"
    by (simp_all add: list_all_iff)
  show ?thesis unfolding price_run_def Let_def tw dw using a by simp
qed

lemma price_run_fraction:
  "ds \<noteq> [] \<Longrightarrow> list_all is_digit ds \<Longrightarrow> list_all is_digit fs \<Longrightarrow>
   length fs = 1 \<or> length fs = 2 \<Longrightarrow> price_run (ds @ CHR ''.'' # fs)"
  using takeWhile_digits_then[of ds "CHR ''.'' # fs"] by (simp add: price_run_def)

lemma price_run_iff:
  assumes "list_all is_digit ds" "r = [] \<or> \<not> is_digit (hd r)"
  shows "price_run (ds @ r) \<longleftrightarrow>
     ds \<noteq> [] \<and> (r = [] \<or> (hd r = CHR ''.'' \<and> (length (tl r) = 1 \<or> length (tl r) = 2)
                     \<and> list_all is_digit (tl r)))"
  using takeWhile_digits_then[OF assms] by (simp add: price_run_def)


lemma digits_split:
  "takeWhile (\<lambda>c. \<not> is_digit c) s @ takeWhile is_digit (dropWhile (\<lambda>c. \<not> is_digit c) s)
     @ dropWhile is_digit (dropWhile (\<lambda>c. \<not> is_digit c) s) = s"
  by simp

lemma re_search_number_None:
  "re_search_number s = None \<longleftrightarrow> (\<forall>c\<in>set s. \<not> is_digit c)"
  by (auto simp: re_search_number_def Let_def dropWhile_eq_Nil_conv)

text \<open>The match is the first and the longest: nothing before it holds a digit, it fits
  the pattern, and no longer piece of the text from the same start fits.\<close>

lemma re_search_number_Some:
  assumes "re_search_number s = Some m"
  shows "\<exists>pre post. s = pre @ m @ post \<and> (\<forall>c\<in>set pre. \<not> is_digit c) \<and> price_run m \<and>
           (\<forall>k. length m < k \<and> k \<le> length (m @ post) \<longrightarrow> \<not> price_run (take k (m @ post)))"
proof -
  define pre where "pre = takeWhile (\<lambda>c. \<not> is_digit c) s"
  define t where "t = dropWhile (\<lambda>c. \<not> is_digit c) s"
  define ds where "ds = takeWhile is_digit t"
  define r where "r = dropWhile is_digit t"
  from assms have tne: "t \<noteq> []" and m: "m = ds @ fraction_part r"
    by (auto simp: re_search_number_def Let_def t_def ds_def r_def split: if_splits)
  have s: "s = pre @ ds @ r" by (simp add: pre_def t_def ds_def r_def)
  have pre: "\<forall>c\<in>set pre. \<not> is_digit c"
    unfolding pre_def by (auto dest: set_takeWhileD)
  have "is_digit (hd t)" using tne unfolding t_def by (metis hd_dropWhile)
  then have dsne: "ds \<noteq> []" using tne unfolding ds_def by (cases t) auto
  have dsd: "list_all is_digit ds" unfolding ds_def by (auto simp: list_all_iff dest: set_takeWhileD)
  have r0: "r = [] \<or> \<not> is_digit (hd r)" unfolding r_def by (metis hd_dropWhile)
  show ?thesis
  proof (cases r rule: fraction_part_cases)
    case none
    have "\<not> price_run (take k (m @ r))" if k: "length m < k" "k \<le> length (m @ r)" for k
    proof -
      from k none m have tk: "take k (m @ r) = ds @ take (k - length ds) r" and kk: "0 < k - length ds" "k - length ds \<le> length r"
        by auto
      define r1 where "r1 = take (k - length ds) r"
      from kk have r1ne: "r1 \<noteq> []" and hd1: "hd r1 = hd r" and rne: "r \<noteq> []"
        unfolding r1_def by (auto simp: hd_take)
      from r0 rne hd1 have "r1 = [] \<or> \<not> is_digit (hd r1)" by simp
      from price_run_iff[OF dsd this] r1ne
      have "price_run (ds @ r1) \<longleftrightarrow> hd r1 = CHR ''.'' \<and> (length (tl r1) = 1 \<or> length (tl r1) = 2) \<and> list_all is_digit (tl r1)"
        using dsne by simp
      moreover have "\<not> (hd r1 = CHR ''.'' \<and> (length (tl r1) = 1 \<or> length (tl r1) = 2) \<and> list_all is_digit (tl r1))"
      proof
        assume h: "hd r1 = CHR ''.'' \<and> (length (tl r1) = 1 \<or> length (tl r1) = 2) \<and> list_all is_digit (tl r1)"
        then obtain d rest1 where "r1 = CHR ''.'' # d # rest1" "is_digit d"
          using r1ne by (cases r1; cases "tl r1") auto
        then have "\<exists>d rest. r = CHR ''.'' # d # rest \<and> is_digit d"
          unfolding r1_def by (metis append_Cons append_take_drop_id)
        with none(2) show False by blast
      qed
      ultimately have "\<not> price_run (ds @ r1)" by blast
      then show ?thesis unfolding tk r1_def .
    qed
    with none m s pre dsne dsd show ?thesis
      by (intro exI[of _ pre] exI[of _ r]) (simp add: price_run_digits)
  next
    case (one d rest)
    have mm: "m = ds @ [CHR ''.'', d]" using m one by simp
    have "\<not> price_run (take k (m @ rest))" if k: "length m < k" "k \<le> length (m @ rest)" for k
    proof -
      from k mm have kk: "0 < k - length m" "k - length m \<le> length rest" by auto
      define r1 where "r1 = take (k - length m) rest"
      from kk have r1ne: "r1 \<noteq> []" and hd1: "hd r1 = hd rest" and rne: "rest \<noteq> []"
        unfolding r1_def by (auto simp: hd_take)
      have "take k (m @ rest) = m @ r1"
        using k by (simp add: r1_def)
      then have tk: "take k (m @ rest) = ds @ (CHR ''.'' # d # r1)"
        by (simp add: mm)
      have "price_run (ds @ (CHR ''.'' # d # r1)) \<longleftrightarrow>
            ds \<noteq> [] \<and> (length (d # r1) = 1 \<or> length (d # r1) = 2) \<and> list_all is_digit (d # r1)"
        using price_run_iff[OF dsd, of "CHR ''.'' # d # r1"] by simp
      moreover have "\<not> list_all is_digit (d # r1)"
        using one(4) rne hd1 r1ne by (cases r1) auto
      ultimately have "\<not> price_run (ds @ (CHR ''.'' # d # r1))" by blast
      then show ?thesis unfolding tk .
    qed
    moreover have "price_run m"
      unfolding mm using price_run_fraction[OF dsne dsd, of "[d]"] one(2) by simp
    ultimately show ?thesis using s pre one mm
      by (intro exI[of _ pre] exI[of _ rest]) simp
  next
    case (two d e rest)
    have mm: "m = ds @ [CHR ''.'', d, e]" using m two by simp
    have "\<not> price_run (take k (m @ rest))" if k: "length m < k" "k \<le> length (m @ rest)" for k
    proof -
      define r1 where "r1 = take (k - length m) rest"
      from k mm have r1ne: "r1 \<noteq> []" unfolding r1_def by auto
      have "take k (m @ rest) = m @ r1"
        using k by (simp add: r1_def)
      then have tk: "take k (m @ rest) = ds @ (CHR ''.'' # d # e # r1)"
        by (simp add: mm)
      have "price_run (ds @ (CHR ''.'' # d # e # r1)) \<longleftrightarrow>
            ds \<noteq> [] \<and> (length (d # e # r1) = 1 \<or> length (d # e # r1) = 2) \<and> list_all is_digit (d # e # r1)"
        using price_run_iff[OF dsd, of "CHR ''.'' # d # e # r1"] by simp
      with r1ne have "\<not> price_run (ds @ (CHR ''.'' # d # e # r1))" by simp
      then show ?thesis unfolding tk .
    qed
    moreover have "price_run m"
      unfolding mm using price_run_fraction[OF dsne dsd, of "[d, e]"] two(2,3) by simp
    ultimately show ?thesis using s pre two mm
      by (intro exI[of _ pre] exI[of _ rest]) simp
  qed
qed


subsection \<open>The numeric parser\<close>

lemma dropWhile_keeps: "x \<in> set xs \<Longrightarrow> \<not> P x \<Longrightarrow> x \<in> set (dropWhile P xs)"
  by (induction xs) auto

lemma strip_keeps_digits: "(\<exists>c\<in>set (strip s). is_digit c) \<longleftrightarrow> (\<exists>c\<in>set s. is_digit c)"
proof
  assume "\<exists>c\<in>set (strip s). is_digit c"
  then show "\<exists>c\<in>set s. is_digit c"
    unfolding strip_def by (auto dest!: set_dropWhileD)
next
  assume "\<exists>c\<in>set s. is_digit c"
  then obtain c where c: "c \<in> set s" "is_digit c" by blast
  then have "c \<in> set (dropWhile py_space s)"
    by (simp add: dropWhile_keeps digit_not_space)
  then have "c \<in> set (dropWhile py_space (rev (dropWhile py_space s)))"
    using c(2) by (simp add: dropWhile_keeps digit_not_space)
  with c(2) show "\<exists>c\<in>set (strip s). is_digit c"
    unfolding strip_def by auto
qed

lemma clean_keeps_digits:
  "(\<exists>c\<in>set (strip (remove_char (CHR ''$'') (remove_char (CHR '','') txt))). is_digit c)
   \<longleftrightarrow> (\<exists>c\<in>set txt. is_digit c)"
  unfolding strip_keeps_digits by (auto simp: remove_char_def dest: digit_not_separator)

lemma num_None: "num txt = None \<longleftrightarrow> (\<forall>c\<in>set txt. \<not> is_digit c)"
proof (cases "txt = []")
  case True
  then show ?thesis by (simp add: num_def)
next
  case False
  then have "num txt = None \<longleftrightarrow>
      (\<forall>c\<in>set (strip (remove_char (CHR ''$'') (remove_char (CHR '','') txt))). \<not> is_digit c)"
    by (simp add: num_def Let_def re_search_number_None)
  with clean_keeps_digits[of "txt"] show ?thesis by blast
qed

lemma decimal_value_price_run:
  assumes "price_run m"
  shows "0 \<le> decimal_value m"
proof -
  define ds where "ds = takeWhile is_digit m"
  define r where "r = dropWhile is_digit m"
  have m: "m = ds @ r" by (simp add: ds_def r_def)
  have dsd: "list_all is_digit ds" unfolding ds_def by (auto simp: list_all_iff dest: set_takeWhileD)
  from assms have r: "r = [] \<or> (hd r = CHR ''.'' \<and> list_all is_digit (tl r))"
    by (auto simp: price_run_def Let_def r_def)
  have nodot: "\<And>c. c \<in> set ds \<Longrightarrow> c \<noteq> CHR ''.''"
    using dsd by (auto simp: list_all_iff)
  have tw: "takeWhile (\<lambda>c. c \<noteq> CHR ''.'') (ds @ r) = ds @ takeWhile (\<lambda>c. c \<noteq> CHR ''.'') r"
    by (rule takeWhile_append2) (rule nodot)
  have dw: "dropWhile (\<lambda>c. c \<noteq> CHR ''.'') (ds @ r) = dropWhile (\<lambda>c. c \<noteq> CHR ''.'') r"
    by (rule dropWhile_append2) (rule nodot)
  have ip: "takeWhile (\<lambda>c. c \<noteq> CHR ''.'') m = ds"
  proof (cases r)
    case Nil
    then show ?thesis unfolding m tw by simp
  next
    case (Cons c fs)
    with r have "c = CHR ''.''" by simp
    with Cons show ?thesis unfolding m tw by simp
  qed
  have fp: "list_all is_digit (drop 1 (dropWhile (\<lambda>c. c \<noteq> CHR ''.'') m))"
  proof (cases r)
    case Nil
    then show ?thesis unfolding m dw by simp
  next
    case (Cons c fs)
    with r have "c = CHR ''.''" "list_all is_digit fs" by simp_all
    with Cons show ?thesis unfolding m dw by simp
  qed
  have a: "0 \<le> (of_int (int_of_digits ds) :: rat)" using int_of_digits_nonneg[OF dsd] by simp
  have b: "0 \<le> (of_int (int_of_digits (drop 1 (dropWhile (\<lambda>c. c \<noteq> CHR ''.'') m))) :: rat)"
    using int_of_digits_nonneg[OF fp] by simp
  have "0 \<le> (of_int (int_of_digits (drop 1 (dropWhile (\<lambda>c. c \<noteq> CHR ''.'') m))) :: rat)
            / 10 ^ length (drop 1 (dropWhile (\<lambda>c. c \<noteq> CHR ''.'') m))"
    using b by (rule divide_nonneg_nonneg) simp
  with a show ?thesis
    unfolding decimal_value_def Let_def ip by (rule add_nonneg_nonneg)
qed

lemma num_Some:
  assumes "num txt = Some v"
  shows "\<exists>pre m post.
           strip (remove_char (CHR ''$'') (remove_char (CHR '','') txt)) = pre @ m @ post \<and>
           (\<forall>c\<in>set pre. \<not> is_digit c) \<and> price_run m \<and>
           (\<forall>k. length m < k \<and> k \<le> length (m @ post) \<longrightarrow> \<not> price_run (take k (m @ post))) \<and>
           v = decimal_value m"
proof -
  from assms obtain m where
    m: "re_search_number (strip (remove_char (CHR ''$'') (remove_char (CHR '','') txt))) = Some m"
    and v: "v = decimal_value m"
    by (auto simp: num_def Let_def split: if_splits)
  from re_search_number_Some[OF m] v show ?thesis by blast
qed

lemma num_nonneg: "num txt = Some v \<Longrightarrow> 0 \<le> v"
  using num_Some[of "txt" v] decimal_value_price_run by blast

text \<open>
  Claim C5. The parser is a total function. It removes the commas and dollar signs and
  the surrounding white space; it returns no value exactly when the text holds no digit
  (so for the empty text, for white space and for text without a number); otherwise the
  value it returns is that of the first and longest piece of the cleaned text that has
  the form digits, optionally a point and one or two digits: no digit stands before
  the piece and no longer piece from the same start has that form. The examples of the
  specification are included.
\<close>

theorem num_parses_first_price_run:
  "(num txt = None \<longleftrightarrow> (\<forall>c\<in>set txt. \<not> is_digit c))
   \<and> (\<forall>v. num txt = Some v \<longrightarrow>
        0 \<le> v \<and>
        (\<exists>pre m post.
           strip (remove_char (CHR ''$'') (remove_char (CHR '','') txt)) = pre @ m @ post \<and>
           (\<forall>c\<in>set pre. \<not> is_digit c) \<and> price_run m \<and>
           (\<forall>k. length m < k \<and> k \<le> length (m @ post) \<longrightarrow> \<not> price_run (take k (m @ post))) \<and>
           v = decimal_value m))
   \<and> num ''$1,234.50'' = Some (2469 / 2) \<and> decimal_value ''1234.50'' = 2469 / 2
   \<and> num ''$99'' = Some 99
   \<and> num ''$0.5'' = Some (1 / 2)
   \<and> num [] = None
   \<and> num ''abc'' = None
   \<and> num ''   '' = None"
proof -
  have ex: "num ''$1,234.50'' = Some (2469 / 2)" "decimal_value ''1234.50'' = 2469 / 2"
    "num ''$99'' = Some 99" "num ''$0.5'' = Some (1 / 2)"
    "num [] = None" "num ''abc'' = None" "num ''   '' = None"
    by code_simp+
  show ?thesis
    using num_None[of "txt"] num_Some[of "txt"] num_nonneg[of "txt"] ex by blast
qed

theorem num_parses_first_price_run_witness:
  "num ''Antes $1,234.50 MXN'' = Some (2469 / 2)
   \<and> (\<exists>pre m post. ''Antes 1234.50 MXN'' = pre @ m @ post \<and> (\<forall>c\<in>set pre. \<not> is_digit c)
         \<and> price_run m \<and> 2469 / 2 = decimal_value m)
   \<and> num ''sin precio'' = None \<and> \<not> list_ex is_digit ''sin precio''"
proof -
  have a: "num ''Antes $1,234.50 MXN'' = Some (2469 / 2)"
    and b: "num ''sin precio'' = None"
    and c: "strip (remove_char (CHR ''$'') (remove_char (CHR '','') ''Antes $1,234.50 MXN'')) = ''Antes 1234.50 MXN''"
    by code_simp+
  from num_parses_first_price_run[of "''Antes $1,234.50 MXN''", THEN conjunct2, THEN conjunct1,
      rule_format, OF a, THEN conjunct2]
  obtain pre m post where
    "strip (remove_char (CHR ''$'') (remove_char (CHR '','') ''Antes $1,234.50 MXN'')) = pre @ m @ post"
    "\<forall>c\<in>set pre. \<not> is_digit c" "price_run m" "2469 / 2 = decimal_value m"
    by (elim exE conjE)
  then have e: "\<exists>pre m post. ''Antes 1234.50 MXN'' = pre @ m @ post \<and> (\<forall>c\<in>set pre. \<not> is_digit c)
         \<and> price_run m \<and> 2469 / 2 = decimal_value m"
    unfolding c by (intro exI conjI)
  from num_parses_first_price_run[of "''sin precio''", THEN conjunct1, THEN iffD1, OF b]
  have "\<forall>c\<in>set ''sin precio''. \<not> is_digit c" .
  then have n: "\<not> list_ex is_digit ''sin precio''" by (simp only: list_ex_iff) blast
  from a e b n show ?thesis by (intro conjI)
qed

subsection \<open>The filter and the picker\<close>

lemma color_range:
  "color_is_red_or_black s = None \<or> color_is_red_or_black s = Some ''black''
   \<or> color_is_red_or_black s = Some ''red''"
proof -
  have "hex_or_keyword t = None \<or> hex_or_keyword t = Some ''black'' \<or> hex_or_keyword t = Some ''red''"
    for t by (simp add: hex_or_keyword_def)
  then show ?thesis
    unfolding color_is_red_or_black_def Let_def by (auto split: option.splits)
qed

lemma color_not_empty: "color_is_red_or_black s \<noteq> Some []"
  using color_range[of s] by auto

lemma filter_candidates_eq: "filter_candidates cs = map annotate (filter keeps cs)"
proof (induction cs)
  case Nil
  then show ?case by simp
next
  case (Cons c cs)
  show ?case
  proof (cases "keeps c")
    case True
    then obtain ct v where ct: "color_is_red_or_black (color c) = Some ct"
      and v: "num (text c) = Some v" "v \<noteq> 0" and ns: "\<not> struck c"
      by (auto simp: keeps_def has_nonzero_value_def)
    from ct color_not_empty[of "color c"] have "ct \<noteq> []" by auto
    with ct v ns True Cons show ?thesis by (simp add: annotate_def)
  next
    case False
    with Cons color_not_empty[of "color c"] show ?thesis
      by (auto simp: keeps_def has_nonzero_value_def split: option.splits)
  qed
qed

lemma colorType_annotate:
  "color_is_red_or_black (color c) \<noteq> None \<Longrightarrow>
   colorType (annotate c) = k \<longleftrightarrow> color_is_red_or_black (color c) = Some k"
  by (auto simp: annotate_def)

lemma filter_color_annotate:
  "filter (\<lambda>x. colorType x = k) (map annotate (filter keeps cs))
   = map annotate (filter (\<lambda>c. color_is_red_or_black (color c) = Some k) (filter keeps cs))"
  by (induction cs) (auto simp: keeps_def colorType_annotate)

lemma reference_steps:
  "filter (\<lambda>c. has_nonzero_value (num (text c)))
     (filter (\<lambda>c. color_is_red_or_black (color c) \<noteq> None) (filter (\<lambda>c. \<not> struck c) cs))
   = filter keeps cs"
  by (induction cs) (auto simp: keeps_def)

lemma case_map_head:
  "(case map f xs of x # _ \<Rightarrow> Some x | [] \<Rightarrow> d) = (case xs of x # _ \<Rightarrow> Some (f x) | [] \<Rightarrow> d)"
  by (cases xs) simp_all

lemma pick_candidate_reference:
  "pick_candidate cs = reference_pick has_nonzero_value cs"
  unfolding pick_candidate_def reference_pick_def Let_def filter_candidates_eq
    filter_color_annotate reference_steps case_map_head ..

lemma pick_candidate_unfold:
  "pick_candidate cs =
     (case filter (\<lambda>c. color_is_red_or_black (color c) = Some ''red'') (filter keeps cs) of
        x # _ \<Rightarrow> Some (annotate x)
      | [] \<Rightarrow>
          (case filter (\<lambda>c. color_is_red_or_black (color c) = Some ''black'') (filter keeps cs) of
             x # _ \<Rightarrow> Some (annotate x)
           | [] \<Rightarrow> None))"
  unfolding pick_candidate_def Let_def filter_candidates_eq filter_color_annotate case_map_head ..

lemma pick_candidate_kept:
  assumes "pick_candidate cs = Some p"
  shows "\<exists>c\<in>set cs. p = annotate c \<and> keeps c"
proof (cases "filter (\<lambda>c. color_is_red_or_black (color c) = Some ''red'') (filter keeps cs)")
  case (Cons x xs)
  then have "x \<in> set (filter (\<lambda>c. color_is_red_or_black (color c) = Some ''red'') (filter keeps cs))"
    by simp
  then have "x \<in> set cs" "keeps x" by simp_all
  moreover from assms Cons have "p = annotate x" by (simp add: pick_candidate_unfold)
  ultimately show ?thesis by blast
next
  case Nil
  show ?thesis
  proof (cases "filter (\<lambda>c. color_is_red_or_black (color c) = Some ''black'') (filter keeps cs)")
    case (Cons x xs)
    then have "x \<in> set (filter (\<lambda>c. color_is_red_or_black (color c) = Some ''black'') (filter keeps cs))"
      by simp
    then have "x \<in> set cs" "keeps x" by simp_all
    moreover from assms Nil Cons have "p = annotate x" by (simp add: pick_candidate_unfold)
    ultimately show ?thesis by blast
  next
    case n2: Nil
    with assms Nil show ?thesis by (simp add: pick_candidate_unfold)
  qed
qed

lemma pick_candidate_positive:
  assumes "pick_candidate cs = Some p"
  shows "\<not> struck p \<and> num (text p) = Some (value p) \<and> 0 < value p
         \<and> (colorType p = ''red'' \<or> colorType p = ''black'')"
proof -
  from pick_candidate_kept[OF assms] obtain c where c: "c \<in> set cs" "p = annotate c" "keeps c"
    by blast
  from c(3) obtain v where v: "num (text c) = Some v" "v \<noteq> 0" and ns: "\<not> struck c"
    and col: "color_is_red_or_black (color c) \<noteq> None"
    by (auto simp: keeps_def has_nonzero_value_def)
  from num_nonneg[OF v(1)] v(2) have "0 < v" by simp
  moreover from col color_range[of "color c"]
  have "the (color_is_red_or_black (color c)) = ''red'' \<or> the (color_is_red_or_black (color c)) = ''black''"
    by auto
  ultimately show ?thesis using v ns c(2) by (simp add: annotate_def)
qed


lemma pick_ignores_struck:
  "pick_candidate (filter (\<lambda>c. \<not> struck c) cs) = pick_candidate cs"
proof -
  have e: "filter keeps (filter (\<lambda>c. \<not> struck c) cs) = filter keeps cs"
    by (induction cs) (auto simp: keeps_def)
  show ?thesis unfolding pick_candidate_unfold e ..
qed

lemma pick_red_before_black:
  assumes "\<not> struck r" "\<not> struck b"
    "color_is_red_or_black (color r) = Some ''red''"
    "color_is_red_or_black (color b) = Some ''black''"
    "num (text r) = Some 85" "num (text b) = Some 90"
  shows "map_option value (pick_candidate [r, b]) = Some 85"
    and "map_option value (pick_candidate [b, r]) = Some 85"
proof -
  from assms have k: "keeps r" "keeps b"
    by (simp_all add: keeps_def has_nonzero_value_def)
  from assms(5) have v: "value (annotate r) = 85" by (simp add: annotate_def)
  from k assms(3,4) v show "map_option value (pick_candidate [r, b]) = Some 85"
    by (simp add: pick_candidate_unfold)
  from k assms(3,4) v show "map_option value (pick_candidate [b, r]) = Some 85"
    by (simp add: pick_candidate_unfold)
qed

lemma sample_candidates:
  "color_is_red_or_black (color red85) = Some ''red''"
  "color_is_red_or_black (color black90) = Some ''black''"
  "color_is_red_or_black (color red_zero) = Some ''red''"
  "num (text red85) = Some 85" "num (text black90) = Some 90" "num (text red_zero) = Some 0"
  "\<not> struck red85" "\<not> struck black90" "\<not> struck red_zero" "struck red_struck"
  by code_simp+

text \<open>
  Claim C1, as the specification states it, fails: a red candidate that is not struck and
  whose text is \<open>$0.00\<close> has the numeric value 0, so the five steps as worded pick it,
  while the code (\<open>if val:\<close>) discards it and picks nothing.
\<close>

theorem pick_differs_from_worded_pipeline:
  "pick_candidate [red_zero] = None
   \<and> reference_pick has_value [red_zero] =
       Some \<lparr>selector = ''mat-label.as-price'', text = ''$0.00'', color = ''rgb(230, 0, 18)'',
             struck = False, value = 0, colorType = ''red''\<rparr>"
  by code_simp

text \<open>
  Claim C1, amended. The picker is a function of the candidate list, equal to the five
  steps with step 3 discarding the candidates whose text yields no numeric value or the
  value zero: discard the struck ones, those of no color class, those without a non-zero
  value, split the rest into red and black in the order of the input, and pick the first
  red, else the first black, else nothing. A struck candidate is never the pick and has
  no influence on it. For a red candidate of value 85 and a black one of value 90,
  both not struck, the pick has the value 85, in either order.
\<close>

theorem pick_is_reference_pipeline:
  "pick_candidate cs = reference_pick has_nonzero_value cs
   \<and> pick_candidate (filter (\<lambda>c. \<not> struck c) cs) = pick_candidate cs
   \<and> (\<forall>p. pick_candidate cs = Some p \<longrightarrow>
         \<not> struck p \<and> (\<exists>c\<in>set cs. \<not> struck c \<and> p = annotate c))
   \<and> (\<not> struck r \<and> \<not> struck b \<and>
       color_is_red_or_black (color r) = Some ''red'' \<and>
       color_is_red_or_black (color b) = Some ''black'' \<and>
       num (text r) = Some 85 \<and> num (text b) = Some 90 \<longrightarrow>
       map_option value (pick_candidate [r, b]) = Some 85 \<and>
       map_option value (pick_candidate [b, r]) = Some 85)"
proof (intro conjI allI impI)
  show "pick_candidate cs = reference_pick has_nonzero_value cs"
    by (rule pick_candidate_reference)
  show "pick_candidate (filter (\<lambda>c. \<not> struck c) cs) = pick_candidate cs"
    by (rule pick_ignores_struck)
next
  fix p assume p: "pick_candidate cs = Some p"
  from pick_candidate_positive[OF p] show "\<not> struck p" by simp
  from pick_candidate_kept[OF p] show "\<exists>c\<in>set cs. \<not> struck c \<and> p = annotate c"
    by (auto simp: keeps_def)
next
  assume a: "\<not> struck r \<and> \<not> struck b \<and>
       color_is_red_or_black (color r) = Some ''red'' \<and>
       color_is_red_or_black (color b) = Some ''black'' \<and>
       num (text r) = Some 85 \<and> num (text b) = Some 90"
  then show "map_option value (pick_candidate [r, b]) = Some 85"
    by (intro pick_red_before_black(1)[of r b]) simp_all
  from a show "map_option value (pick_candidate [b, r]) = Some 85"
    by (intro pick_red_before_black(2)[of r b]) simp_all
qed

theorem pick_is_reference_pipeline_witness:
  "map_option value (pick_candidate [red85, black90]) = Some 85
   \<and> map_option value (pick_candidate [black90, red85]) = Some 85
   \<and> pick_candidate [red_struck, black90] = reference_pick has_nonzero_value [red_struck, black90]
   \<and> pick_candidate [black90] = pick_candidate [red_struck, black90]
   \<and> pick_candidate [red_struck, black90] = Some (annotate black90)"
proof -
  note t = pick_is_reference_pipeline[of "[red_struck, black90]" red85 black90]
  have pk: "pick_candidate [red_struck, black90] = Some (annotate black90)"
    using sample_candidates
    by (simp add: pick_candidate_unfold keeps_def has_nonzero_value_def)
  from t[THEN conjunct2, THEN conjunct2, THEN conjunct2] sample_candidates
  have a: "map_option value (pick_candidate [red85, black90]) = Some 85"
    and b: "map_option value (pick_candidate [black90, red85]) = Some 85"
    by simp_all
  from t[THEN conjunct2, THEN conjunct1] sample_candidates
  have c: "pick_candidate [black90] = pick_candidate [red_struck, black90]" by simp
  from a b t[THEN conjunct1] c pk show ?thesis by (intro conjI)
qed

subsection \<open>Prices are positive\<close>

lemma set_price_build_response: "set_price (build_response u name pv t) = Some pv"
  by (simp add: set_price_def build_response_def split: prod.splits)

lemma poll_price_positive:
  assumes "price_val (poll env i now deadline raw) = Some pv"
  shows "0 < pv"
proof -
  from poll_result_shape[OF assms] obtain p j where
    "attempt_pick (env j) = Some p" "pv = value p" by blast
  then obtain doc where "pick_candidate (FIND_PRICE_JS doc PRICE_SELECTORS) = Some p"
    by (auto simp: attempt_pick_def split: option.splits)
  from pick_candidate_positive[OF this] \<open>pv = value p\<close> show ?thesis by simp
qed

lemma get_price_positive:
  assumes "\<forall>k r. c k = Some r \<longrightarrow> (\<exists>v. set_price r = Some v \<and> 0 < v)"
    "get_price c pg u = (res, c')"
  shows "(\<forall>k r. c' k = Some r \<longrightarrow> (\<exists>v. set_price r = Some v \<and> 0 < v))
       \<and> (\<forall>r. res = Inr r \<longrightarrow> (\<exists>v. set_price r = Some v \<and> 0 < v))"
proof (cases rule: get_price_cases[of c u pg])
  case (hit r)
  with assms show ?thesis by auto
next
  case (load_failure e)
  with assms show ?thesis by auto
next
  case not_found
  with assms show ?thesis by auto
next
  case (fresh pv resp)
  from poll_price_positive[OF fresh(2)] have "0 < pv" .
  with fresh(4,5) have "\<exists>v. set_price resp = Some v \<and> 0 < v"
    by (auto simp: set_price_def)
  with fresh assms show ?thesis by auto
qed

lemma serve_positive:
  assumes "Inr r \<in> set (fst (serve Map.empty reqs))"
  shows "\<exists>v. set_price r = Some v \<and> 0 < v"
proof -
  have "(\<forall>r. Inr r \<in> set (fst (serve Map.empty reqs)) \<longrightarrow> (\<exists>v. set_price r = Some v \<and> 0 < v)) \<and>
        (\<forall>k r. snd (serve Map.empty reqs) k = Some r \<longrightarrow> (\<exists>v. set_price r = Some v \<and> 0 < v))"
  proof (rule serve_invariant[where P="\<lambda>r. \<exists>v. set_price r = Some v \<and> 0 < v" and c=Map.empty])
    fix c :: cache and pg u res c'
    assume "\<forall>k r. c k = Some r \<longrightarrow> (\<exists>v. set_price r = Some v \<and> 0 < v)" "get_price c pg u = (res, c')"
    then show "(\<forall>k r. c' k = Some r \<longrightarrow> (\<exists>v. set_price r = Some v \<and> 0 < v))
       \<and> (\<forall>r. res = Inr r \<longrightarrow> (\<exists>v. set_price r = Some v \<and> 0 < v))"
      by (rule get_price_positive)
  next
    show "\<forall>k r. Map.empty k = Some r \<longrightarrow> (\<exists>v. set_price r = Some v \<and> 0 < v)" by simp
  qed
  with assms show ?thesis by blast
qed

text \<open>
  Claim C10. The candidate the picker returns has a text that parses to its value, and
  that value is strictly positive; a candidate whose text parses to 0 (as \<open>$0\<close> and
  \<open>$0.00\<close> do: the parser returns a value for them) is never the pick. In a run of the
  server from an empty cache, every record returned has its price set to a strictly
  positive number.
\<close>

theorem zero_price_never_picked:
  "(\<forall>p. pick_candidate cs = Some p \<longrightarrow> num (text p) = Some (value p) \<and> 0 < value p)
   \<and> (\<forall>c. num (text c) = Some 0 \<longrightarrow> pick_candidate cs \<noteq> Some (annotate c))
   \<and> num ''$0'' = Some 0 \<and> num ''$0.00'' = Some 0
   \<and> (\<forall>r. Inr r \<in> set (fst (serve Map.empty reqs)) \<longrightarrow> (\<exists>v. set_price r = Some v \<and> 0 < v))"
proof (intro conjI allI impI)
  fix p assume p: "pick_candidate cs = Some p"
  from pick_candidate_positive[OF p]
  show "num (text p) = Some (value p)" and "0 < value p" by simp_all
next
  fix c :: raw_candidate
  assume z: "num (text c) = Some 0"
  show "pick_candidate cs \<noteq> Some (annotate c)"
  proof
    assume "pick_candidate cs = Some (annotate c)"
    from pick_candidate_positive[OF this] z show False by (simp add: annotate_def)
  qed
next
  show "num ''$0'' = Some 0" "num ''$0.00'' = Some 0" by code_simp+
next
  fix r assume "Inr r \<in> set (fst (serve Map.empty reqs))"
  then show "\<exists>v. set_price r = Some v \<and> 0 < v" by (rule serve_positive)
qed


theorem zero_price_never_picked_witness:
  "pick_candidate [red_zero, black90] = Some (annotate black90)
   \<and> 0 < value (annotate black90)
   \<and> num (text red_zero) = Some 0
   \<and> pick_candidate [red_zero, black90] \<noteq> Some (annotate red_zero)
   \<and> (\<exists>v. set_price
          (build_response ''https://alsuper.com/producto/chorizo-argentino''
             (Some ''Chorizo Argentino'') 85 ''Chorizo Argentino $85.00'') = Some v \<and> 0 < v)"
proof -
  let ?reqs = "[(example_page (\<lambda>j. slow_attempt (Some example_doc)),
                 ''https://alsuper.com/producto/chorizo-argentino'')]"
  note t = zero_price_never_picked[of "[red_zero, black90]" ?reqs]
  have pk: "pick_candidate [red_zero, black90] = Some (annotate black90)"
    using sample_candidates
    by (simp add: pick_candidate_unfold keeps_def has_nonzero_value_def)
  from t[THEN conjunct1, rule_format, OF pk]
  have pos: "0 < value (annotate black90)" by simp
  from t[THEN conjunct2, THEN conjunct1, rule_format, of red_zero] sample_candidates(6)
  have nz: "pick_candidate [red_zero, black90] \<noteq> Some (annotate red_zero)" by simp
  have run: "fst (serve Map.empty ?reqs) =
      [Inr (build_response ''https://alsuper.com/producto/chorizo-argentino''
             (Some ''Chorizo Argentino'') 85 ''Chorizo Argentino $85.00'')]"
    by (simp add: example_get_price)
  from t[THEN conjunct2, THEN conjunct2, THEN conjunct2, THEN conjunct2, rule_format,
      of "build_response ''https://alsuper.com/producto/chorizo-argentino''
             (Some ''Chorizo Argentino'') 85 ''Chorizo Argentino $85.00''"]
  have rec: "\<exists>v. set_price
          (build_response ''https://alsuper.com/producto/chorizo-argentino''
             (Some ''Chorizo Argentino'') 85 ''Chorizo Argentino $85.00'') = Some v \<and> 0 < v"
    unfolding run by simp
  from pk pos sample_candidates(6) nz rec show ?thesis by (intro conjI)
qed

subsection \<open>The locator\<close>

lemma digit_not_js_space: "is_digit c \<Longrightarrow> \<not> js_space c"
  by (auto simp: is_digit_def js_space_def)

lemma push_nodes_eq:
  "push_nodes sel nodes out = out @ map (report sel) (filter qualifies nodes)"
  by (induction nodes arbitrary: out) (simp_all add: qualifies_def report_def Let_def)

lemma find_price_loop_eq:
  "find_price_loop doc sels [] = locator_reference hasDollarDigits doc sels"
proof (induction sels)
  case Nil
  then show ?case by (simp add: locator_reference_def)
next
  case (Cons sel sels)
  have q: "list_ex (\<lambda>el. hasDollarDigits (js_trim (textContent el))) (doc sel)
           \<longleftrightarrow> filter qualifies (doc sel) \<noteq> []"
    by (auto simp: list_ex_iff filter_empty_conv qualifies_def)
  have f: "filter (\<lambda>el. hasDollarDigits (js_trim (textContent el))) (doc sel) = filter qualifies (doc sel)"
    by (rule filter_cong) (simp_all add: qualifies_def)
  show ?case
  proof (cases "filter qualifies (doc sel) = []")
    case True
    with Cons q show ?thesis
      by (simp add: push_nodes_eq locator_reference_def)
  next
    case False
    with q f show ?thesis
      by (simp add: push_nodes_eq locator_reference_def)
  qed
qed

lemma hasDollarDigits_iff:
  "hasDollarDigits t \<longleftrightarrow>
     (\<exists>pre ws d post. t = pre @ CHR ''$'' # ws @ d # post \<and> list_all js_space ws \<and> is_digit d)"
proof
  show "hasDollarDigits t \<Longrightarrow>
     \<exists>pre ws d post. t = pre @ CHR ''$'' # ws @ d # post \<and> list_all js_space ws \<and> is_digit d"
  proof (induction t)
    case Nil
    then show ?case by simp
  next
    case (Cons c cs)
    show ?case
    proof (cases "c = CHR ''$'' \<and> (case dropWhile js_space cs of d # _ \<Rightarrow> is_digit d | [] \<Rightarrow> False)")
      case True
      then obtain d rest where d: "dropWhile js_space cs = d # rest" "is_digit d"
        by (auto split: list.splits)
      have "cs = takeWhile js_space cs @ d # rest"
        using d(1) takeWhile_dropWhile_id[of js_space cs] by simp
      moreover have "list_all js_space (takeWhile js_space cs)"
        by (auto simp: list_all_iff dest: set_takeWhileD)
      ultimately have "c # cs = [] @ CHR ''$'' # takeWhile js_space cs @ d # rest
          \<and> list_all js_space (takeWhile js_space cs) \<and> is_digit d"
        using True d(2) by simp
      then show ?thesis by blast
    next
      case False
      with Cons.prems have "hasDollarDigits cs" by auto
      from Cons.IH[OF this] obtain pre ws d post where
        "cs = pre @ CHR ''$'' # ws @ d # post" "list_all js_space ws" "is_digit d" by blast
      then have "c # cs = (c # pre) @ CHR ''$'' # ws @ d # post \<and> list_all js_space ws \<and> is_digit d"
        by simp
      then show ?thesis by blast
    qed
  qed
next
  assume "\<exists>pre ws d post. t = pre @ CHR ''$'' # ws @ d # post \<and> list_all js_space ws \<and> is_digit d"
  then obtain pre ws d post where t: "t = pre @ CHR ''$'' # ws @ d # post"
    and ws: "list_all js_space ws" and d: "is_digit d" by blast
  have dw: "dropWhile js_space (ws @ d # post) = d # post"
    using ws digit_not_js_space[OF d] by (induction ws) simp_all
  have "hasDollarDigits (pre @ CHR ''$'' # ws @ d # post)"
    by (induction pre) (simp_all add: dw d)
  with t show "hasDollarDigits t" by simp
qed

lemma dollar_then_digit_imp: "dollar_then_digit t \<Longrightarrow> hasDollarDigits t"
proof (induction t)
  case Nil
  then show ?case by simp
next
  case (Cons c cs)
  then show ?case
    by (cases cs) (auto simp: digit_not_js_space)
qed

lemma locator_reference_members:
  assumes "c \<in> set (locator_reference test doc sels)"
  shows "test (text c) \<and> selector c \<in> set sels
         \<and> (\<exists>el\<in>set (doc (selector c)). c = report (selector c) el)"
proof (cases "find (\<lambda>sel. list_ex (\<lambda>el. test (js_trim (textContent el))) (doc sel)) sels")
  case None
  with assms show ?thesis by (simp add: locator_reference_def)
next
  case (Some sel)
  with assms have "c \<in> set (map (report sel) (filter (\<lambda>el. test (js_trim (textContent el))) (doc sel)))"
    by (simp add: locator_reference_def)
  then obtain el where el: "el \<in> set (doc sel)" "test (js_trim (textContent el))" "c = report sel el"
    by auto
  from Some have "sel \<in> set sels" by (auto simp: find_Some_iff)
  with el show ?thesis by (auto simp: report_def)
qed

lemma locator_reference_first:
  assumes "sels = before @ sel # after"
    "\<forall>s\<in>set before. \<not> list_ex (\<lambda>el. test (js_trim (textContent el))) (doc s)"
    "list_ex (\<lambda>el. test (js_trim (textContent el))) (doc sel)"
  shows "locator_reference test doc sels
         = map (report sel) (filter (\<lambda>el. test (js_trim (textContent el))) (doc sel))"
proof -
  have "find (\<lambda>sel. list_ex (\<lambda>el. test (js_trim (textContent el))) (doc sel)) (before @ sel # after) = Some sel"
    using assms(2,3) by (induction before) simp_all
  then show ?thesis by (simp add: locator_reference_def assms(1))
qed

text \<open>
  Claim C2, as the specification states it, fails: the test of the script is
  \<open>/\$\s*\d/\<close>, which lets white space stand between the currency symbol and the digit.
  An element whose text is \<open>$ 12.50\<close> is reported, though its text has no currency
  symbol immediately followed by a digit; a locator with the test as worded reports
  nothing on that page.
\<close>

theorem locator_reports_spaced_price:
  "FIND_PRICE_JS spaced_doc PRICE_SELECTORS =
     [\<lparr>selector = ''mat-label.as-price'', text = ''$ 12.50'', color = ''rgb(0, 0, 0)'',
       struck = False\<rparr>]
   \<and> \<not> dollar_then_digit ''$ 12.50''
   \<and> locator_reference dollar_then_digit spaced_doc PRICE_SELECTORS = []"
  by code_simp


text \<open>
  Claim C2, amended. Given the ordered selector list, the locator returns the collected
  elements of exactly the first selector in priority order that has an element whose
  trimmed text contains a currency symbol followed, after any white space, by a digit:
  it reports all such elements of that selector, in document order, and nothing of a
  later selector; it reports nothing when no selector has such an element. Every
  reported candidate has such a text and stems from an element of its selector.
\<close>

theorem locator_first_matching_selector:
  "FIND_PRICE_JS doc sels = locator_reference hasDollarDigits doc sels
   \<and> (\<forall>c\<in>set (FIND_PRICE_JS doc sels).
         hasDollarDigits (text c) \<and> selector c \<in> set sels \<and>
         (\<exists>el\<in>set (doc (selector c)). c = report (selector c) el))
   \<and> (sels = before @ sel # after \<and> (\<forall>s\<in>set before. \<not> list_ex qualifies (doc s)) \<and>
       list_ex qualifies (doc sel) \<longrightarrow>
       FIND_PRICE_JS doc sels = map (report sel) (filter qualifies (doc sel)))
   \<and> ((\<forall>s\<in>set sels. \<not> list_ex qualifies (doc s)) \<longrightarrow> FIND_PRICE_JS doc sels = [])
   \<and> (hasDollarDigits t \<longleftrightarrow>
        (\<exists>pre ws d post. t = pre @ CHR ''$'' # ws @ d # post \<and> list_all js_space ws \<and> is_digit d))"
proof -
  have q: "qualifies = (\<lambda>el. hasDollarDigits (js_trim (textContent el)))"
    by (rule ext) (simp add: qualifies_def)
  have eq: "FIND_PRICE_JS doc sels = locator_reference hasDollarDigits doc sels"
    by (simp add: FIND_PRICE_JS_def find_price_loop_eq)
  have mem: "\<forall>c\<in>set (FIND_PRICE_JS doc sels).
         hasDollarDigits (text c) \<and> selector c \<in> set sels \<and>
         (\<exists>el\<in>set (doc (selector c)). c = report (selector c) el)"
    unfolding eq using locator_reference_members[of _ hasDollarDigits doc sels] by blast
  have first: "sels = before @ sel # after \<and> (\<forall>s\<in>set before. \<not> list_ex qualifies (doc s)) \<and>
       list_ex qualifies (doc sel) \<longrightarrow>
       FIND_PRICE_JS doc sels = map (report sel) (filter qualifies (doc sel))"
    unfolding eq q using locator_reference_first[of sels before sel after hasDollarDigits doc]
    by blast
  have none: "(\<forall>s\<in>set sels. \<not> list_ex qualifies (doc s)) \<longrightarrow> FIND_PRICE_JS doc sels = []"
  proof
    assume "\<forall>s\<in>set sels. \<not> list_ex qualifies (doc s)"
    then have "find (\<lambda>sel. list_ex (\<lambda>el. hasDollarDigits (js_trim (textContent el))) (doc sel)) sels = None"
      unfolding q by (simp add: find_None_iff)
    then show "FIND_PRICE_JS doc sels = []"
      unfolding eq by (simp add: locator_reference_def)
  qed
  from eq mem first none hasDollarDigits_iff[of t] show ?thesis by (intro conjI)
qed

theorem locator_first_matching_selector_witness:
  "FIND_PRICE_JS two_level_doc PRICE_SELECTORS =
     [\<lparr>selector = ''mat-label.as-price.as-font-red-blood'', text = ''$85.00'',
       color = ''rgb(230, 0, 18)'', struck = False\<rparr>]
   \<and> FIND_PRICE_JS empty_doc PRICE_SELECTORS = []
   \<and> hasDollarDigits ''$ 12.50''"
proof -
  have split: "PRICE_SELECTORS = [''mat-label.as-discount-price.as-font-red-blood'']
      @ ''mat-label.as-price.as-font-red-blood'' # drop 2 PRICE_SELECTORS"
    by (simp add: PRICE_SELECTORS_def)
  have h1: "\<forall>s\<in>set [''mat-label.as-discount-price.as-font-red-blood'']. \<not> list_ex qualifies (two_level_doc s)"
    and h2: "list_ex qualifies (two_level_doc ''mat-label.as-price.as-font-red-blood'')"
    and r: "map (report ''mat-label.as-price.as-font-red-blood'')
              (filter qualifies (two_level_doc ''mat-label.as-price.as-font-red-blood''))
            = [\<lparr>selector = ''mat-label.as-price.as-font-red-blood'', text = ''$85.00'',
                color = ''rgb(230, 0, 18)'', struck = False\<rparr>]"
    by code_simp+
  have h3: "\<forall>s\<in>set PRICE_SELECTORS. \<not> list_ex qualifies (empty_doc s)"
    by (simp add: empty_doc_def)
  have h4: "''$ 12.50'' = [] @ CHR ''$'' # '' '' @ CHR ''1'' # ''2.50'' \<and> list_all js_space '' ''
      \<and> is_digit (CHR ''1'')"
    by code_simp
  note t = locator_first_matching_selector[of two_level_doc PRICE_SELECTORS
      "[''mat-label.as-discount-price.as-font-red-blood'']" "''mat-label.as-price.as-font-red-blood''"
      "drop 2 PRICE_SELECTORS" "''$ 12.50''"]
  from t[THEN conjunct2, THEN conjunct2, THEN conjunct1, THEN mp, OF conjI[OF split conjI[OF h1 h2]]]
  have a: "FIND_PRICE_JS two_level_doc PRICE_SELECTORS =
     [\<lparr>selector = ''mat-label.as-price.as-font-red-blood'', text = ''$85.00'',
       color = ''rgb(230, 0, 18)'', struck = False\<rparr>]"
    unfolding r .
  from locator_first_matching_selector[of empty_doc PRICE_SELECTORS, THEN conjunct2, THEN conjunct2,
      THEN conjunct2, THEN conjunct1, THEN mp, OF h3]
  have b: "FIND_PRICE_JS empty_doc PRICE_SELECTORS = []" .
  from t[THEN conjunct2, THEN conjunct2, THEN conjunct2, THEN conjunct2, THEN iffD2] h4
  have c: "hasDollarDigits ''$ 12.50''" by blast
  from a b c show ?thesis by (intro conjI)
qed

subsection \<open>Substrings\<close>

lemma starts_with_iff: "starts_with n h \<longleftrightarrow> (\<exists>s. h = n @ s)"
proof
  assume "starts_with n h"
  then have "h = n @ drop (length n) h"
    unfolding starts_with_def by (metis append_take_drop_id)
  then show "\<exists>s. h = n @ s" ..
next
  assume "\<exists>s. h = n @ s"
  then show "starts_with n h" by (auto simp: starts_with_def)
qed

lemma contains_iff: "contains n h \<longleftrightarrow> (\<exists>p s. h = p @ n @ s)"
proof (induction h)
  case Nil
  then show ?case by simp
next
  case (Cons c cs)
  show ?case
  proof
    assume "contains n (c # cs)"
    then consider "starts_with n (c # cs)" | "contains n cs" by auto
    then show "\<exists>p s. c # cs = p @ n @ s"
    proof cases
      case 1
      then obtain s where "c # cs = n @ s" by (auto simp: starts_with_iff)
      then have "c # cs = [] @ n @ s" by simp
      then show ?thesis by blast
    next
      case 2
      with Cons.IH obtain p s where "cs = p @ n @ s" by blast
      then have "c # cs = (c # p) @ n @ s" by simp
      then show ?thesis by blast
    qed
  next
    assume "\<exists>p s. c # cs = p @ n @ s"
    then obtain p s where ps: "c # cs = p @ n @ s" by blast
    show "contains n (c # cs)"
    proof (cases p)
      case Nil
      with ps have "starts_with n (c # cs)" by (auto simp: starts_with_iff)
      then show ?thesis by simp
    next
      case (Cons a p')
      with ps have "cs = p' @ n @ s" by simp
      with Cons.IH have "contains n cs" by blast
      then show ?thesis by simp
    qed
  qed
qed

lemma contains_trans: "contains a b \<Longrightarrow> contains b c \<Longrightarrow> contains a c"
proof -
  assume "contains a b" "contains b c"
  then obtain p s p' s' where "b = p @ a @ s" "c = p' @ b @ s'"
    by (auto simp: contains_iff)
  then have "c = (p' @ p) @ a @ (s @ s')" by simp
  then show ?thesis unfolding contains_iff by blast
qed

lemma contains_lower: "contains n h \<Longrightarrow> contains (lower n) (lower h)"
proof -
  assume "contains n h"
  then obtain p s where "h = p @ n @ s" by (auto simp: contains_iff)
  then have "lower h = lower p @ lower n @ lower s" by (simp add: lower_def)
  then show ?thesis unfolding contains_iff by blast
qed

lemma contains_appendI1: "contains n a \<Longrightarrow> contains n (a @ b)"
proof -
  assume "contains n a"
  then obtain p s where "a = p @ n @ s" by (auto simp: contains_iff)
  then have "a @ b = p @ n @ (s @ b)" by simp
  then show ?thesis unfolding contains_iff by blast
qed

lemma contains_url_low:
  assumes "contains k u" "lower k = k"
  shows "contains k (lower (u @ '' '' @ pt))"
  using contains_lower[OF contains_appendI1[OF assms(1), of "'' '' @ pt"]] assms(2)
  by simp

lemma six_pack_in_cerveza: "contains ''six-pack'' ''cerveza-six-pack''"
  by code_simp

lemma chorizo_in_chorizo_dash: "contains ''chorizo'' ''chorizo-''"
  by code_simp

lemma lower_keywords: "lower ''cerveza-six-pack'' = ''cerveza-six-pack''" "lower ''chorizo-'' = ''chorizo-''"
  by code_simp+

subsection \<open>Unit inference\<close>

lemma guess_units_table:
  "guess_units u pt = decision_table (lower (u @ '' '' @ pt))"
proof -
  define low where "low = lower (u @ '' '' @ pt)"
  have c: "contains ''cerveza-six-pack'' low \<Longrightarrow> contains ''six-pack'' low"
    by (rule contains_trans[OF six_pack_in_cerveza])
  show ?thesis
    unfolding guess_units_def decision_table_def unit_rules_def Let_def low_def[symmetric]
    using c by (simp del: contains.simps)
qed


lemma guess_units_six_pack:
  assumes "contains ''six-pack'' (lower (u @ '' '' @ pt)) \<or> contains ''six pack'' (lower (u @ '' '' @ pt))"
  shows "guess_units u pt = (''six-pack'', Some 6, None)"
proof -
  from assms have "contains ''cerveza-six-pack'' (lower (u @ '' '' @ pt))
      \<or> contains ''six pack'' (lower (u @ '' '' @ pt)) \<or> contains ''six-pack'' (lower (u @ '' '' @ pt))"
    by blast
  then show ?thesis unfolding guess_units_def Let_def by (rule if_P)
qed

lemma guess_units_chorizo:
  assumes "contains ''chorizo'' (lower (u @ '' '' @ pt))"
    and "\<not> list_ex (\<lambda>k. contains k (lower (u @ '' '' @ pt))) earlier_markers"
  shows "guess_units u pt = (''pieza'', Some 1, Some 100)"
proof -
  define low where "low = lower (u @ '' '' @ pt)"
  have c: "contains ''cerveza-six-pack'' low \<Longrightarrow> contains ''six-pack'' low"
    by (rule contains_trans[OF six_pack_in_cerveza])
  from assms(2) have n: "\<not> contains ''six-pack'' low" "\<not> contains ''six pack'' low"
    "\<not> contains ''nectar-mixto'' low" "\<not> contains ''v8'' low" "\<not> contains ''lata'' low"
    "\<not> contains ''kg'' low" "\<not> contains ''kilo'' low" "\<not> contains ''pulpa-de-res'' low"
    "\<not> contains ''jamon-de-pierna'' low" "\<not> contains ''tocineta'' low" "\<not> contains ''cebolla'' low"
    unfolding low_def[symmetric] earlier_markers_def unit_rules_def
    by (simp_all del: contains.simps)
  from n(1) c have "\<not> contains ''cerveza-six-pack'' low" by blast
  with n assms(1) show ?thesis
    unfolding guess_units_def Let_def low_def[symmetric] by (simp del: contains.simps)
qed

lemma guess_units_labels:
  "fst (guess_units u pt) \<in> set [''kg'', ''pieza'', ''paquete'', ''lata'', ''six-pack'']"
proof -
  have "\<And>a b c d e f g. fst (if a then (''six-pack'', Some (6::int), None :: int option)
       else if b then (''lata'', Some 1, None)
       else if c then (''kg'', None, None)
       else if d then (''pieza'', Some 1, Some 100)
       else if e then (''paquete'', Some 1, Some 800)
       else if f then (''paquete'', Some 1, Some 800)
       else (''pieza'', Some 1, None))
     \<in> set [''kg'', ''pieza'', ''paquete'', ''lata'', ''six-pack'']"
    by simp
  then show ?thesis unfolding guess_units_def Let_def .
qed

text \<open>
  Claim C3, as the specification states it, fails in its last example: a URL that contains
  \<open>chorizo-\<close> does not always give (pieza, 1, 100). The kg rule stands before the
  chorizo rule, so the URL of a chorizo sold by weight, which also contains \<open>kg\<close>,
  gives (kg, null, null).
\<close>

theorem chorizo_url_shadowed_by_kg:
  "contains ''chorizo-'' ''https://alsuper.com/producto/chorizo-argentino-kg''
   \<and> guess_units ''https://alsuper.com/producto/chorizo-argentino-kg'' [] = (''kg'', None, None)"
  by code_simp

text \<open>
  Claim C3, amended. On the lower-cased text of the URL, a space and the page text, the
  heuristic equals the ordered decision table of section 4.6, in which the first rule with
  a keyword in the text wins and the default is (pieza, 1, no weight). Earlier rules
  shadow later ones: every input with a six-pack marker gives (six-pack, 6, no weight),
  whatever else it contains, \<open>paquete\<close> included; a URL containing
  \<open>cerveza-six-pack\<close> gives (six-pack, 6, null); a URL containing \<open>chorizo-\<close> gives
  (pieza, 1, 100) when the text has no keyword of the three rules before the chorizo
  rule. The unit label is always one of the five of the enumeration.
\<close>

theorem guess_units_is_decision_table:
  "guess_units u pt = decision_table (lower (u @ '' '' @ pt))
   \<and> (contains ''six-pack'' (lower (u @ '' '' @ pt)) \<or> contains ''six pack'' (lower (u @ '' '' @ pt))
        \<longrightarrow> guess_units u pt = (''six-pack'', Some 6, None))
   \<and> (contains ''cerveza-six-pack'' u \<longrightarrow> guess_units u pt = (''six-pack'', Some 6, None))
   \<and> (contains ''chorizo-'' u \<and>
       \<not> list_ex (\<lambda>k. contains k (lower (u @ '' '' @ pt))) earlier_markers
        \<longrightarrow> guess_units u pt = (''pieza'', Some 1, Some 100))
   \<and> fst (guess_units u pt) \<in> set [''kg'', ''pieza'', ''paquete'', ''lata'', ''six-pack'']"
proof (intro conjI impI)
  show "guess_units u pt = decision_table (lower (u @ '' '' @ pt))"
    by (rule guess_units_table)
next
  assume "contains ''six-pack'' (lower (u @ '' '' @ pt)) \<or> contains ''six pack'' (lower (u @ '' '' @ pt))"
  then show "guess_units u pt = (''six-pack'', Some 6, None)" by (rule guess_units_six_pack)
next
  assume "contains ''cerveza-six-pack'' u"
  from contains_url_low[OF this lower_keywords(1), of pt]
  have "contains ''six-pack'' (lower (u @ '' '' @ pt))"
    by (rule contains_trans[OF six_pack_in_cerveza])
  then show "guess_units u pt = (''six-pack'', Some 6, None)"
    by (intro guess_units_six_pack disjI1)
next
  assume a: "contains ''chorizo-'' u \<and>
       \<not> list_ex (\<lambda>k. contains k (lower (u @ '' '' @ pt))) earlier_markers"
  from contains_url_low[OF a[THEN conjunct1] lower_keywords(2), of pt]
  have "contains ''chorizo'' (lower (u @ '' '' @ pt))"
    by (rule contains_trans[OF chorizo_in_chorizo_dash])
  with a show "guess_units u pt = (''pieza'', Some 1, Some 100)"
    by (intro guess_units_chorizo) simp_all
next
  show "fst (guess_units u pt) \<in> set [''kg'', ''pieza'', ''paquete'', ''lata'', ''six-pack'']"
    by (rule guess_units_labels)
qed

theorem guess_units_is_decision_table_witness:
  "guess_units ''https://alsuper.com/producto/cerveza-six-pack-355ml'' ''Paquete de 6 botellas''
     = (''six-pack'', Some 6, None)
   \<and> contains ''paquete'' (lower (''https://alsuper.com/producto/cerveza-six-pack-355ml'' @ '' ''
        @ ''Paquete de 6 botellas''))
   \<and> guess_units ''https://alsuper.com/producto/chorizo-argentino'' ''Chorizo Argentino $85.00''
     = (''pieza'', Some 1, Some 100)
   \<and> decision_table (lower (''https://alsuper.com/producto/chorizo-argentino'' @ '' ''
        @ ''Chorizo Argentino $85.00'')) = (''pieza'', Some 1, Some 100)"
proof -
  have h1: "contains ''cerveza-six-pack'' ''https://alsuper.com/producto/cerveza-six-pack-355ml''"
    and h2: "contains ''paquete'' (lower (''https://alsuper.com/producto/cerveza-six-pack-355ml'' @ '' ''
        @ ''Paquete de 6 botellas''))"
    and h3: "contains ''chorizo-'' ''https://alsuper.com/producto/chorizo-argentino''"
    and h4: "\<not> list_ex (\<lambda>k. contains k (lower (''https://alsuper.com/producto/chorizo-argentino'' @ '' ''
        @ ''Chorizo Argentino $85.00''))) earlier_markers"
    by code_simp+
  from guess_units_is_decision_table[of "''https://alsuper.com/producto/cerveza-six-pack-355ml''"
      "''Paquete de 6 botellas''", THEN conjunct2, THEN conjunct2, THEN conjunct1, THEN mp, OF h1]
  have a: "guess_units ''https://alsuper.com/producto/cerveza-six-pack-355ml'' ''Paquete de 6 botellas''
     = (''six-pack'', Some 6, None)" .
  note t = guess_units_is_decision_table[of "''https://alsuper.com/producto/chorizo-argentino''"
      "''Chorizo Argentino $85.00''"]
  from t[THEN conjunct2, THEN conjunct2, THEN conjunct2, THEN conjunct1, THEN mp, OF conjI[OF h3 h4]]
  have b: "guess_units ''https://alsuper.com/producto/chorizo-argentino'' ''Chorizo Argentino $85.00''
     = (''pieza'', Some 1, Some 100)" .
  from t[THEN conjunct1] b
  have c: "decision_table (lower (''https://alsuper.com/producto/chorizo-argentino'' @ '' ''
        @ ''Chorizo Argentino $85.00'')) = (''pieza'', Some 1, Some 100)" by simp
  from a h2 b c show ?thesis by (intro conjI)
qed

subsection \<open>The color classifier\<close>

lemma color_rgb:
  assumes "starts_with ''rgb'' (remove_char (CHR '' '') (lower c))"
  shows "color_is_red_or_black c =
     (case rgb_channels (remove_char (CHR '' '') (lower c)) of
        None \<Rightarrow> None
      | Some (r, g, b) \<Rightarrow>
          if r \<le> 10 \<and> g \<le> 10 \<and> b \<le> 10 then Some ''black''
          else if 180 \<le> r \<and> g \<le> 60 \<and> b \<le> 60 then Some ''red''
          else hex_or_keyword (remove_char (CHR '' '') (lower c)))"
  unfolding color_is_red_or_black_def Let_def using assms by (rule if_P)

lemma color_not_rgb:
  assumes "\<not> starts_with ''rgb'' (remove_char (CHR '' '') (lower c))"
  shows "color_is_red_or_black c = hex_or_keyword (remove_char (CHR '' '') (lower c))"
  unfolding color_is_red_or_black_def Let_def using assms by (rule if_not_P)

lemma hex_or_keyword_hex:
  "t = ''#000'' \<or> t = ''#000000'' \<Longrightarrow> hex_or_keyword t = Some ''black''"
  "t = ''#f00'' \<or> t = ''#ff0000'' \<Longrightarrow> hex_or_keyword t = Some ''red''"
  unfolding hex_or_keyword_def by (auto simp del: contains.simps)

lemma hex_or_keyword_words:
  "t \<notin> set [''#000'', ''#000000'', ''#f00'', ''#ff0000''] \<and> contains ''black'' t
        \<longrightarrow> hex_or_keyword t = Some ''black''"
  "t \<notin> set [''#000'', ''#000000'', ''#f00'', ''#ff0000''] \<and> \<not> contains ''black'' t \<and> contains ''red'' t
        \<longrightarrow> hex_or_keyword t = Some ''red''"
  "t \<notin> set [''#000'', ''#000000'', ''#f00'', ''#ff0000''] \<and> \<not> contains ''black'' t \<and> \<not> contains ''red'' t
        \<longrightarrow> hex_or_keyword t = None"
  unfolding hex_or_keyword_def by (auto simp del: contains.simps)

text \<open>
  Claim C6. The classifier is a total function with values red, black and none. On a
  text that, lower-cased and without spaces, starts with \<open>rgb\<close>: channels that cannot be
  read give none; channels all at most 10 give black; red at least 180 with green and
  blue at most 60 gives red. The texts \<open>#000\<close> and \<open>#000000\<close> give black, \<open>#f00\<close>
  and \<open>#ff0000\<close> give red. In every other case the words decide: a text containing
  \<open>black\<close> gives black, else one containing \<open>red\<close> gives red, else none. The examples
  of the specification are included.
\<close>

theorem color_classifier_cases:
  assumes "s = remove_char (CHR '' '') (lower c)"
  shows
  "(color_is_red_or_black c = None \<or> color_is_red_or_black c = Some ''black''
      \<or> color_is_red_or_black c = Some ''red'')
   \<and> (starts_with ''rgb'' s \<and> rgb_channels s = None \<longrightarrow> color_is_red_or_black c = None)
   \<and> (starts_with ''rgb'' s \<and> rgb_channels s = Some (r, g, b) \<and> r \<le> 10 \<and> g \<le> 10 \<and> b \<le> 10
        \<longrightarrow> color_is_red_or_black c = Some ''black'')
   \<and> (starts_with ''rgb'' s \<and> rgb_channels s = Some (r, g, b) \<and> 180 \<le> r \<and> g \<le> 60 \<and> b \<le> 60
        \<longrightarrow> color_is_red_or_black c = Some ''red'')
   \<and> (starts_with ''rgb'' s \<and> rgb_channels s = Some (r, g, b)
        \<and> \<not> (r \<le> 10 \<and> g \<le> 10 \<and> b \<le> 10) \<and> \<not> (180 \<le> r \<and> g \<le> 60 \<and> b \<le> 60)
        \<longrightarrow> color_is_red_or_black c = hex_or_keyword s)
   \<and> (\<not> starts_with ''rgb'' s \<longrightarrow> color_is_red_or_black c = hex_or_keyword s)
   \<and> (s = ''#000'' \<or> s = ''#000000'' \<longrightarrow> color_is_red_or_black c = Some ''black'')
   \<and> (s = ''#f00'' \<or> s = ''#ff0000'' \<longrightarrow> color_is_red_or_black c = Some ''red'')
   \<and> (t \<notin> set [''#000'', ''#000000'', ''#f00'', ''#ff0000''] \<and> contains ''black'' t
        \<longrightarrow> hex_or_keyword t = Some ''black'')
   \<and> (t \<notin> set [''#000'', ''#000000'', ''#f00'', ''#ff0000''] \<and> \<not> contains ''black'' t \<and> contains ''red'' t
        \<longrightarrow> hex_or_keyword t = Some ''red'')
   \<and> (t \<notin> set [''#000'', ''#000000'', ''#f00'', ''#ff0000''] \<and> \<not> contains ''black'' t \<and> \<not> contains ''red'' t
        \<longrightarrow> hex_or_keyword t = None)
   \<and> color_is_red_or_black ''rgb(200,10,10)'' = Some ''red''
   \<and> color_is_red_or_black ''rgb(5,5,5)'' = Some ''black''
   \<and> color_is_red_or_black ''rgb(100,100,100)'' = None
   \<and> color_is_red_or_black ''#000000'' = Some ''black''
   \<and> color_is_red_or_black ''#ff0000'' = Some ''red''
   \<and> color_is_red_or_black ''#000'' = Some ''black''
   \<and> color_is_red_or_black ''#f00'' = Some ''red''"
proof -
  have range: "color_is_red_or_black c = None \<or> color_is_red_or_black c = Some ''black''
      \<or> color_is_red_or_black c = Some ''red''"
    by (rule color_range)
  have unparseable: "starts_with ''rgb'' s \<and> rgb_channels s = None \<longrightarrow> color_is_red_or_black c = None"
    unfolding assms by (auto simp: color_rgb)
  have black: "starts_with ''rgb'' s \<and> rgb_channels s = Some (r, g, b) \<and> r \<le> 10 \<and> g \<le> 10 \<and> b \<le> 10
        \<longrightarrow> color_is_red_or_black c = Some ''black''"
    unfolding assms by (auto simp: color_rgb)
  have red: "starts_with ''rgb'' s \<and> rgb_channels s = Some (r, g, b) \<and> 180 \<le> r \<and> g \<le> 60 \<and> b \<le> 60
        \<longrightarrow> color_is_red_or_black c = Some ''red''"
    unfolding assms by (auto simp: color_rgb)
  have mid: "starts_with ''rgb'' s \<and> rgb_channels s = Some (r, g, b)
        \<and> \<not> (r \<le> 10 \<and> g \<le> 10 \<and> b \<le> 10) \<and> \<not> (180 \<le> r \<and> g \<le> 60 \<and> b \<le> 60)
        \<longrightarrow> color_is_red_or_black c = hex_or_keyword s"
    unfolding assms by (auto simp: color_rgb)
  have other: "\<not> starts_with ''rgb'' s \<longrightarrow> color_is_red_or_black c = hex_or_keyword s"
    unfolding assms by (auto simp: color_not_rgb)
  have hexb: "s = ''#000'' \<or> s = ''#000000'' \<longrightarrow> color_is_red_or_black c = Some ''black''"
  proof
    assume h: "s = ''#000'' \<or> s = ''#000000''"
    then have "\<not> starts_with ''rgb'' s" by (auto simp: starts_with_def)
    with other have "color_is_red_or_black c = hex_or_keyword s" by (rule mp)
    with hex_or_keyword_hex(1)[OF h] show "color_is_red_or_black c = Some ''black''" by simp
  qed
  have hexr: "s = ''#f00'' \<or> s = ''#ff0000'' \<longrightarrow> color_is_red_or_black c = Some ''red''"
  proof
    assume h: "s = ''#f00'' \<or> s = ''#ff0000''"
    then have "\<not> starts_with ''rgb'' s" by (auto simp: starts_with_def)
    with other have "color_is_red_or_black c = hex_or_keyword s" by (rule mp)
    with hex_or_keyword_hex(2)[OF h] show "color_is_red_or_black c = Some ''red''" by simp
  qed
  have ex: "color_is_red_or_black ''rgb(200,10,10)'' = Some ''red''"
    "color_is_red_or_black ''rgb(5,5,5)'' = Some ''black''"
    "color_is_red_or_black ''rgb(100,100,100)'' = None"
    "color_is_red_or_black ''#000000'' = Some ''black''"
    "color_is_red_or_black ''#ff0000'' = Some ''red''"
    "color_is_red_or_black ''#000'' = Some ''black''"
    "color_is_red_or_black ''#f00'' = Some ''red''"
    by code_simp+
  show ?thesis
    by (intro conjI)
       (fact range unparseable black red mid other hexb hexr hex_or_keyword_words ex)+
qed


theorem color_classifier_cases_witness:
  "color_is_red_or_black ''RGBA(200.9, 10, 10, 0.5)'' = Some ''red''
   \<and> rgb_channels ''rgba(200.9,10,10,0.5)'' = Some (200, 10, 10)
   \<and> color_is_red_or_black ''rgb(10,10)'' = None
   \<and> color_is_red_or_black ''Dark Red'' = hex_or_keyword ''darkred''
   \<and> hex_or_keyword ''darkred'' = Some ''red''"
proof -
  have s1: "''rgba(200.9,10,10,0.5)'' = remove_char (CHR '' '') (lower ''RGBA(200.9, 10, 10, 0.5)'')"
    and p1: "starts_with ''rgb'' ''rgba(200.9,10,10,0.5)''"
    and c1: "rgb_channels ''rgba(200.9,10,10,0.5)'' = Some (200, 10, 10)"
    and s2: "''rgb(10,10)'' = remove_char (CHR '' '') (lower ''rgb(10,10)'')"
    and p2: "starts_with ''rgb'' ''rgb(10,10)''"
    and c2: "rgb_channels ''rgb(10,10)'' = None"
    and s3: "''darkred'' = remove_char (CHR '' '') (lower ''Dark Red'')"
    and p3: "\<not> starts_with ''rgb'' ''darkred''"
    and k3: "''darkred'' \<notin> set [''#000'', ''#000000'', ''#f00'', ''#ff0000''] \<and> \<not> contains ''black'' ''darkred''
             \<and> contains ''red'' ''darkred''"
    by code_simp+
  have n1: "(180::int) \<le> 200 \<and> (10::int) \<le> 60 \<and> (10::int) \<le> 60" by simp
  from color_classifier_cases[OF s1, of 200 10 10 "''darkred''", THEN conjunct2, THEN conjunct2,
      THEN conjunct2, THEN conjunct1, THEN mp, OF conjI[OF p1 conjI[OF c1 n1]]]
  have a: "color_is_red_or_black ''RGBA(200.9, 10, 10, 0.5)'' = Some ''red''" .
  from color_classifier_cases[OF s2, of 0 0 0 "''darkred''", THEN conjunct2, THEN conjunct1,
      THEN mp, OF conjI[OF p2 c2]]
  have b: "color_is_red_or_black ''rgb(10,10)'' = None" .
  note t = color_classifier_cases[OF s3, of 0 0 0 "''darkred''"]
  from t[THEN conjunct2, THEN conjunct2, THEN conjunct2, THEN conjunct2, THEN conjunct2,
      THEN conjunct1, THEN mp, OF p3]
  have c: "color_is_red_or_black ''Dark Red'' = hex_or_keyword ''darkred''" .
  from t[THEN conjunct2, THEN conjunct2, THEN conjunct2, THEN conjunct2, THEN conjunct2,
      THEN conjunct2, THEN conjunct2, THEN conjunct2, THEN conjunct2, THEN conjunct1, THEN mp, OF k3]
  have d: "hex_or_keyword ''darkred'' = Some ''red''" .
  from a c1 b c d show ?thesis by (intro conjI)
qed

subsection \<open>Exceptions inside an attempt\<close>

lemma waited_0: "waited env i 0 = 0"
  by (simp add: waited_def)

lemma waited_Suc:
  "waited env i (Suc k) = took (env i) + 350 + overshoot (env i) + waited env (Suc i) k"
proof -
  have "i < i + Suc k" by simp
  then have "(\<Sum>j = i..<i + Suc k. took (env j) + 350 + overshoot (env j))
      = (took (env i) + 350 + overshoot (env i)) + (\<Sum>j = Suc i..<i + Suc k. took (env j) + 350 + overshoot (env j))"
    by (rule sum.atLeast_Suc_lessThan)
  then show ?thesis by (simp add: waited_def)
qed

lemma waited_mono: "j \<le> k \<Longrightarrow> waited env i j \<le> waited env i k"
  unfolding waited_def by (rule sum_mono2) auto

lemma poll_found_after_failures:
  assumes "\<And>j. j < k \<Longrightarrow> attempt_pick (env (i + j)) = None"
    and "now + waited env i k < deadline"
    and "attempt_pick (env (i + k)) = Some p"
  shows "price_val (poll env i now deadline raw) = Some (value p)
       \<and> picked (poll env i now deadline raw) = Some p
       \<and> clock (poll env i now deadline raw) = now + waited env i k + took (env (i + k))"
  using assms
proof (induction k arbitrary: i now raw)
  case 0
  from 0(2) have lt: "now < deadline" by (simp add: waited_0)
  from 0(3) have pk: "attempt_pick (env i) = Some p" by simp
  from poll_found[where env=env and i=i and raw=raw, OF lt pk] show ?case
    by (auto simp: waited_0)
next
  case (Suc k)
  from Suc.prems(2) have lt: "now < deadline" by simp
  from Suc.prems(1)[of 0] have np: "attempt_pick (env i) = None" by simp
  from poll_no_pick_step[where env=env and i=i and raw=raw, OF lt np] obtain raw' where
    eq: "poll env i now deadline raw =
         poll env (i + 1) (now + took (env i) + 350 + overshoot (env i)) deadline raw'" by blast
  have a: "\<And>j. j < k \<Longrightarrow> attempt_pick (env (i + 1 + j)) = None"
    using Suc.prems(1) by (metis Suc_less_eq add.assoc plus_1_eq_Suc)
  have b: "now + took (env i) + 350 + overshoot (env i) + waited env (i + 1) k < deadline"
    using Suc.prems(2) by (simp add: waited_Suc)
  have c: "attempt_pick (env (i + 1 + k)) = Some p" using Suc.prems(3) by simp
  from Suc.IH[of "i + 1" "now + took (env i) + 350 + overshoot (env i)" raw', OF a b c]
  show ?case unfolding eq by (simp add: waited_Suc)
qed

lemma poll_raised_many:
  assumes "\<And>j. j < k \<Longrightarrow> page_dom (env (i + j)) = None"
    and "\<And>j. j < k \<Longrightarrow> now + waited env i j < deadline"
  shows "poll env i now deadline raw = poll env (i + k) (now + waited env i k) deadline raw"
  using assms
proof (induction k arbitrary: i now)
  case 0
  then show ?case by (simp add: waited_0)
next
  case (Suc k)
  from Suc.prems(2)[of 0] have lt: "now < deadline" by (simp add: waited_0)
  from Suc.prems(1)[of 0] have r: "page_dom (env i) = None" by simp
  have a: "\<And>j. j < k \<Longrightarrow> page_dom (env (i + 1 + j)) = None"
    using Suc.prems(1) by (metis Suc_less_eq add.assoc plus_1_eq_Suc)
  have b: "\<And>j. j < k \<Longrightarrow> now + took (env i) + 350 + overshoot (env i) + waited env (i + 1) j < deadline"
  proof -
    fix j assume "j < k"
    then have "now + waited env i (Suc j) < deadline" using Suc.prems(2)[of "Suc j"] by simp
    then show "now + took (env i) + 350 + overshoot (env i) + waited env (i + 1) j < deadline"
      by (simp add: waited_Suc)
  qed
  from Suc.IH[of "i + 1" "now + took (env i) + 350 + overshoot (env i)", OF a b]
  show ?case
    by (simp add: poll_raised[where env=env and i=i, OF lt r] waited_Suc add.assoc)
qed

lemma poll_none_clock:
  "price_val (poll env i now deadline raw) = None \<Longrightarrow> deadline \<le> clock (poll env i now deadline raw)"
proof (induction env i now deadline raw rule: poll.induct)
  case (1 env i now deadline raw)
  show ?case
  proof (cases "now < deadline")
    case False
    then show ?thesis by (simp add: poll_expired)
  next
    case True
    show ?thesis
    proof (cases "attempt_pick (env i)")
      case (Some p)
      from poll_found[where env=env and i=i and raw=raw, OF True Some] "1.prems"
      show ?thesis by auto
    next
      case None
      show ?thesis
      proof (cases "page_dom (env i)")
        case dn: None
        from "1.prems" "1.IH"(1)[OF True dn] show ?thesis
          by (simp add: poll_raised[where env=env and i=i, OF True dn])
      next
        case (Some doc)
        have np: "pick_candidate (FIND_PRICE_JS doc PRICE_SELECTORS) = None"
          using None Some by (simp add: attempt_pick_def)
        have eq: "poll env i now deadline raw = poll env (i + 1) (now + took (env i) + 350 + overshoot (env i)) deadline (FIND_PRICE_JS doc PRICE_SELECTORS)"
          by (subst poll.simps) (simp add: True Some np)
        from "1.prems" "1.IH"(2)[OF True Some refl np] show ?thesis
          by (simp add: eq)
      qed
    qed
  qed
qed

lemma get_price_miss_result:
  assumes "cache u = None" "load_failure pg = None"
  shows "(\<exists>pv. price_val (poll (attempts pg) 0 (started pg) (started pg + 18000) []) = Some pv \<and>
            get_price cache pg u =
              (Inr (build_response u (map_option strip (h1_inner_text pg)) pv
                     (case body_inner_text pg of None \<Rightarrow> [] | Some t \<Rightarrow> t)),
               cache(u \<mapsto> build_response u (map_option strip (h1_inner_text pg)) pv
                     (case body_inner_text pg of None \<Rightarrow> [] | Some t \<Rightarrow> t))))
       \<or> (price_val (poll (attempts pg) 0 (started pg) (started pg + 18000) []) = None \<and>
           started pg + 18000 \<le> clock (poll (attempts pg) 0 (started pg) (started pg + 18000) []) \<and>
           get_price cache pg u = (Inl (HTTPException 500 not_found_detail), cache))"
proof (cases "price_val (poll (attempts pg) 0 (started pg) (started pg + 18000) [])")
  case None
  from poll_none_clock[OF None] get_price_not_found[where cache=cache and u=u, OF assms None] None
  show ?thesis by blast
next
  case (Some pv)
  from get_price_fresh[where cache=cache and u=u, OF assms Some] Some show ?thesis by blast
qed


text \<open>
  Claim C8. An attempt in which \<open>page.evaluate\<close> raises yields no pick, and the loop
  goes on: it waits the 350 ms (and whatever the wait overshoots) and polls again, with
  the other loop variables unchanged. After any number of attempts that raise or yield no
  pick, each followed by its wait, an attempt that starts before the deadline and yields
  a pick ends the loop with the value of that candidate, and \<open>get_price\<close> returns the
  record with that value to the client. If every attempt raises, the loop polls until
  the deadline and ends with no price. Whatever the attempts do, the only exception
  \<open>get_price\<close> raises after a successful load is the HTTP 500 with the fixed message,
  and it raises it only once the deadline has passed: no exception of an attempt reaches
  the client.
\<close>

theorem attempt_exception_swallowed:
  "(page_dom (env i) = None \<longrightarrow> attempt_pick (env i) = None)
   \<and> (now < deadline \<and> page_dom (env i) = None \<longrightarrow>
        poll env i now deadline raw =
        poll env (i + 1) (now + took (env i) + 350 + overshoot (env i)) deadline raw)
   \<and> ((\<forall>j<k. page_dom (env (i + j)) = None \<and> now + waited env i j < deadline) \<longrightarrow>
        poll env i now deadline raw = poll env (i + k) (now + waited env i k) deadline raw)
   \<and> ((\<forall>j<k. page_dom (env (i + j)) = None \<or> attempt_pick (env (i + j)) = None) \<and>
       now + waited env i k < deadline \<and> attempt_pick (env (i + k)) = Some p \<longrightarrow>
        price_val (poll env i now deadline raw) = Some (value p) \<and>
        picked (poll env i now deadline raw) = Some p \<and>
        clock (poll env i now deadline raw) = now + waited env i k + took (env (i + k)))
   \<and> ((\<forall>j. page_dom (env j) = None) \<longrightarrow>
        price_val (poll env 0 t0 (t0 + 18000) []) = None \<and>
        t0 + 18000 \<le> clock (poll env 0 t0 (t0 + 18000) []))
   \<and> (cache u = None \<and> load_failure pg = None \<and>
       (\<forall>j<k. page_dom (attempts pg j) = None \<or> attempt_pick (attempts pg j) = None) \<and>
       started pg + waited (attempts pg) 0 k < started pg + 18000 \<and>
       attempt_pick (attempts pg k) = Some p \<longrightarrow>
        get_price cache pg u =
          (Inr (build_response u (map_option strip (h1_inner_text pg)) (value p)
                 (case body_inner_text pg of None \<Rightarrow> [] | Some t \<Rightarrow> t)),
           cache(u \<mapsto> build_response u (map_option strip (h1_inner_text pg)) (value p)
                 (case body_inner_text pg of None \<Rightarrow> [] | Some t \<Rightarrow> t))))
   \<and> (cache u = None \<and> load_failure pg = None \<and> (\<forall>j. page_dom (attempts pg j) = None) \<longrightarrow>
        get_price cache pg u = (Inl (HTTPException 500 not_found_detail), cache))
   \<and> (cache u = None \<and> load_failure pg = None \<and> get_price cache pg u = (Inl e, cache') \<longrightarrow>
        e = HTTPException 500 not_found_detail \<and>
        started pg + 18000 \<le> clock (poll (attempts pg) 0 (started pg) (started pg + 18000) []))"
proof (intro conjI impI)
  assume "page_dom (env i) = None"
  then show "attempt_pick (env i) = None" by (simp add: attempt_pick_def)
next
  assume "now < deadline \<and> page_dom (env i) = None"
  then show "poll env i now deadline raw =
        poll env (i + 1) (now + took (env i) + 350 + overshoot (env i)) deadline raw"
    by (simp add: poll_raised)
next
  assume "\<forall>j<k. page_dom (env (i + j)) = None \<and> now + waited env i j < deadline"
  then show "poll env i now deadline raw = poll env (i + k) (now + waited env i k) deadline raw"
    by (intro poll_raised_many) simp_all
next
  assume a: "(\<forall>j<k. page_dom (env (i + j)) = None \<or> attempt_pick (env (i + j)) = None) \<and>
       now + waited env i k < deadline \<and> attempt_pick (env (i + k)) = Some p"
  have np: "\<And>j. j < k \<Longrightarrow> attempt_pick (env (i + j)) = None"
    using a by (auto simp: attempt_pick_def)
  from poll_found_after_failures[where env=env and i=i and k=k and now=now and deadline=deadline
      and p=p and raw=raw, OF np] a
  show "price_val (poll env i now deadline raw) = Some (value p)"
    and "picked (poll env i now deadline raw) = Some p"
    and "clock (poll env i now deadline raw) = now + waited env i k + took (env (i + k))"
    by simp_all
next
  assume "\<forall>j. page_dom (env j) = None"
  then have "\<And>j. attempt_pick (env j) = None" by (simp add: attempt_pick_def)
  from poll_never_picks[of 0 env t0 "t0 + 18000" "[]", OF this]
  show "price_val (poll env 0 t0 (t0 + 18000) []) = None"
    and "t0 + 18000 \<le> clock (poll env 0 t0 (t0 + 18000) [])"
    by simp_all
next
  assume a: "cache u = None \<and> load_failure pg = None \<and>
       (\<forall>j<k. page_dom (attempts pg j) = None \<or> attempt_pick (attempts pg j) = None) \<and>
       started pg + waited (attempts pg) 0 k < started pg + 18000 \<and>
       attempt_pick (attempts pg k) = Some p"
  have np: "\<And>j. j < k \<Longrightarrow> attempt_pick (attempts pg (0 + j)) = None"
    using a by (auto simp: attempt_pick_def)
  from a have lt: "started pg + waited (attempts pg) 0 k < started pg + 18000"
    and pk: "attempt_pick (attempts pg (0 + k)) = Some p" by simp_all
  from poll_found_after_failures[where env="attempts pg" and i=0 and k=k and now="started pg"
      and deadline="started pg + 18000" and p=p and raw="[]", OF np lt pk]
  have "price_val (poll (attempts pg) 0 (started pg) (started pg + 18000) []) = Some (value p)"
    by simp
  from get_price_fresh[where cache=cache and u=u and pg=pg, OF a[THEN conjunct1]
      a[THEN conjunct2, THEN conjunct1] this]
  show "get_price cache pg u =
          (Inr (build_response u (map_option strip (h1_inner_text pg)) (value p)
                 (case body_inner_text pg of None \<Rightarrow> [] | Some t \<Rightarrow> t)),
           cache(u \<mapsto> build_response u (map_option strip (h1_inner_text pg)) (value p)
                 (case body_inner_text pg of None \<Rightarrow> [] | Some t \<Rightarrow> t)))" .
next
  assume a: "cache u = None \<and> load_failure pg = None \<and> (\<forall>j. page_dom (attempts pg j) = None)"
  then have "\<And>j. attempt_pick (attempts pg j) = None" by (simp add: attempt_pick_def)
  from poll_never_picks[of 0 "attempts pg" "started pg" "started pg + 18000" "[]", OF this]
  have "price_val (poll (attempts pg) 0 (started pg) (started pg + 18000) []) = None" by simp
  with a show "get_price cache pg u = (Inl (HTTPException 500 not_found_detail), cache)"
    by (simp add: get_price_not_found)
next
  assume a: "cache u = None \<and> load_failure pg = None \<and> get_price cache pg u = (Inl e, cache')"
  from get_price_miss_result[of cache u pg] a
  show "e = HTTPException 500 not_found_detail"
    and "started pg + 18000 \<le> clock (poll (attempts pg) 0 (started pg) (started pg + 18000) [])"
    by auto
qed

theorem attempt_exception_swallowed_witness:
  "poll (\<lambda>j. slow_attempt (if j < 2 then None else Some example_doc)) 0 1000 19000 [] =
   poll (\<lambda>j. slow_attempt (if j < 2 then None else Some example_doc)) 2 13750 19000 []
   \<and> price_val (poll (\<lambda>j. slow_attempt (if j < 2 then None else Some example_doc)) 0 1000 19000 [])
       = Some 85
   \<and> clock (poll (\<lambda>j. slow_attempt (if j < 2 then None else Some example_doc)) 0 1000 19000 [])
       = 19750
   \<and> fst (get_price Map.empty
            (example_page (\<lambda>j. slow_attempt (if j < 2 then None else Some example_doc)))
            ''https://alsuper.com/producto/chorizo-argentino'')
       = Inr \<lparr>url = ''https://alsuper.com/producto/chorizo-argentino'',
              product_name = Some ''Chorizo Argentino'',
              price_per_kg = None, unit_price = Some 85, unit_pack_size = Some 1,
              unit_weight_g = Some 100, currency = ''MXN'', raw_unit = Some ''pieza''\<rparr>
   \<and> get_price Map.empty (example_page (\<lambda>j. slow_attempt None))
            ''https://alsuper.com/producto/chorizo-argentino''
       = (Inl (HTTPException 500 not_found_detail), Map.empty)
   \<and> price_val (poll (\<lambda>j. slow_attempt None) 0 1000 (1000 + 18000) []) = None
   \<and> 1000 + 18000 \<le> clock (poll (\<lambda>j. slow_attempt None) 0 1000 (1000 + 18000) [])"
proof -
  let ?env = "\<lambda>j::nat. slow_attempt (if j < 2 then None else Some example_doc)"
  let ?p = "\<lparr>selector = ''mat-label.as-price'', text = ''$85.00'', color = ''rgb(230, 0, 18)'',
             struck = False, value = 85, colorType = ''red''\<rparr>"
  let ?u = "''https://alsuper.com/producto/chorizo-argentino''"
  have w: "waited ?env 0 2 = 12750" "waited ?env 0 1 = 6375" "waited ?env 0 0 = 0"
    by (simp_all add: waited_def slow_attempt_def numeral_2_eq_2)
  have pk: "attempt_pick (?env (0 + 2)) = Some ?p"
    using example_attempt_pick by simp
  have early: "\<forall>j<2. page_dom (?env (0 + j)) = None \<and> 1000 + waited ?env 0 j < 19000"
  proof (intro allI impI)
    fix j :: nat assume "j < 2"
    then have "j = 0 \<or> j = 1" by auto
    then show "page_dom (?env (0 + j)) = None \<and> 1000 + waited ?env 0 j < 19000"
      using w by (auto simp: slow_attempt_def)
  qed
  then have early': "\<forall>j<2. page_dom (?env (0 + j)) = None \<or> attempt_pick (?env (0 + j)) = None"
    by blast
  note t = attempt_exception_swallowed[of ?env 0 1000 19000 "[]" 2 ?p 1000 Map.empty ?u
      "example_page ?env"]
  from t[THEN conjunct2, THEN conjunct2, THEN conjunct1, THEN mp, OF early]
  have a': "poll ?env 0 1000 19000 [] = poll ?env (0 + 2) (1000 + waited ?env 0 2) 19000 []" .
  have ar: "(0::nat) + 2 = 2" "1000 + waited ?env 0 2 = 13750" by (simp_all add: w)
  have a: "poll ?env 0 1000 19000 [] = poll ?env 2 13750 19000 []"
    using a' unfolding ar .
  have lt: "1000 + waited ?env 0 2 < 19000" by (simp add: w)
  from t[THEN conjunct2, THEN conjunct2, THEN conjunct2, THEN conjunct1, THEN mp,
      OF conjI[OF early' conjI[OF lt pk]]]
  have bc: "price_val (poll ?env 0 1000 19000 []) = Some (value ?p) \<and>
        picked (poll ?env 0 1000 19000 []) = Some ?p \<and>
        clock (poll ?env 0 1000 19000 []) = 1000 + waited ?env 0 2 + took (?env (0 + 2))" .
  have tk0: "took (?env (0 + 2)) = 6000" by (simp add: slow_attempt_def)
  have tk: "1000 + waited ?env 0 2 + took (?env (0 + 2)) = 19750"
    unfolding w tk0 by simp
  from bc have b: "price_val (poll ?env 0 1000 19000 []) = Some 85" by simp
  from bc have c: "clock (poll ?env 0 1000 19000 []) = 19750" unfolding tk by (elim conjE)
  have h: "Map.empty ?u = None \<and> load_failure (example_page ?env) = None \<and>
       (\<forall>j<2. page_dom (attempts (example_page ?env) j) = None
               \<or> attempt_pick (attempts (example_page ?env) j) = None) \<and>
       started (example_page ?env) + waited (attempts (example_page ?env)) 0 2
         < started (example_page ?env) + 18000 \<and>
       attempt_pick (attempts (example_page ?env) 2) = Some ?p"
    using early' pk by (simp add: example_page_def w)
  from t[THEN conjunct2, THEN conjunct2, THEN conjunct2, THEN conjunct2, THEN conjunct2,
      THEN conjunct1, THEN mp, OF h]
  have d: "fst (get_price Map.empty (example_page ?env) ?u)
       = Inr \<lparr>url = ''https://alsuper.com/producto/chorizo-argentino'',
              product_name = Some ''Chorizo Argentino'',
              price_per_kg = None, unit_price = Some 85, unit_pack_size = Some 1,
              unit_weight_g = Some 100, currency = ''MXN'', raw_unit = Some ''pieza''\<rparr>"
    using example_name by (simp add: example_page_def example_response)
  note t2 = attempt_exception_swallowed[of "\<lambda>j::nat. slow_attempt None" 0 1000 19000 "[]" 2 ?p 1000
      Map.empty ?u "example_page (\<lambda>j::nat. slow_attempt None)"]
  have h2: "Map.empty ?u = None \<and> load_failure (example_page (\<lambda>j::nat. slow_attempt None)) = None \<and>
      (\<forall>j. page_dom (attempts (example_page (\<lambda>j::nat. slow_attempt None)) j) = None)"
    by (simp add: example_page_def slow_attempt_def)
  from t2[THEN conjunct2, THEN conjunct2, THEN conjunct2, THEN conjunct2, THEN conjunct2,
      THEN conjunct2, THEN conjunct1, THEN mp, OF h2]
  have e: "get_price Map.empty (example_page (\<lambda>j. slow_attempt None)) ?u
       = (Inl (HTTPException 500 not_found_detail), Map.empty)" .
  have h3: "\<forall>j::nat. page_dom ((\<lambda>j::nat. slow_attempt None) j) = None" by (simp add: slow_attempt_def)
  from t2[THEN conjunct2, THEN conjunct2, THEN conjunct2, THEN conjunct2, THEN conjunct1,
      THEN mp, OF h3]
  have f: "price_val (poll (\<lambda>j. slow_attempt None) 0 1000 (1000 + 18000) []) = None"
    and g: "1000 + 18000 \<le> clock (poll (\<lambda>j. slow_attempt None) 0 1000 (1000 + 18000) [])"
    by simp_all
  from a b c d e f g show ?thesis by (intro conjI)
qed

end
